theory Spec2Isabelle
  imports Main "HOL-Library.AList" "HOL-Library.Word" "HOL-Library.Signed_Division"
begin

section \<open>Values shared by the stream client and the evaluation client\<close>

text \<open>
  A Go function either returns or panics. A panic is a value of \<open>fault\<close>; the second
  constructor marks a scheduler event that cannot happen in the state at hand (a
  \<open>select\<close> branch that is not ready, a goroutine that is not running).
\<close>

datatype fault = Panic string | NotEnabled

text \<open>
  \<open>interface{}\<close> values as they come out of the JSON decoder. Numbers are carried as
  their text: no function of these files computes with them.
\<close>

datatype val = VNil | VBool bool | VNum string | VStr string
  | VArr "val list" | VObj "(string \<times> val) list"

text \<open>
  A Go map that the code ranges over is an association list with pairwise distinct keys
  (one possible enumeration order); \<open>m[k] = v\<close> on it is \<open>AList.update\<close>. A map that
  is only indexed is a HOL map.
\<close>

type_synonym ('k, 'v) gomap = "('k \<times> 'v) list"

text \<open>
  Go maps are reference values. The metadata map of a flag lives in a store of maps;
  an address is an index into the store, and \<open>make\<close> appends a new cell.
\<close>

type_synonym addr = nat
type_synonym mapstore = "(string, val) gomap list"

text \<open>
  \<open>evaluation.Flag\<close> is declared outside the two files: the fields the files and the
  design read are kept. \<open>Metadata\<close> is \<open>None\<close> for a nil map.
\<close>

record flag =
  Key :: string
  Dependencies :: "string list"
  Metadata :: "addr option"

section \<open>The streaming sync client (flag\_config\_stream\_api.go)\<close>

subsection \<open>parseData\<close>

text \<open>
  \<open>json.Unmarshal(data, &flagsArray)\<close> belongs to the Go library: it is a parameter
  \<open>unmarshal\<close> giving either the decoding error or the decoded \<open>[]*evaluation.Flag\<close>. A JSON
  \<open>null\<close> element decodes to a nil pointer, here \<open>None\<close>; the loop's \<open>flag.Key\<close>
  dereferences it.
\<close>

fun rekey :: "flag option list \<Rightarrow> (string \<rightharpoonup> flag) \<Rightarrow> fault + (string \<rightharpoonup> flag)" where
  "rekey [] flags = Inr flags"
| "rekey (None # rest) flags = Inl (Panic ''nil pointer dereference'')"
| "rekey (Some flag # rest) flags = rekey rest (flags(Key flag \<mapsto> flag))"

definition parseData ::
  "(string \<Rightarrow> string + flag option list) \<Rightarrow> string \<Rightarrow> fault + (string + (string \<rightharpoonup> flag))" where
  "parseData unmarshal data =
     (case unmarshal data of
        Inl err \<Rightarrow> Inr (Inl err)
      | Inr flagsArray \<Rightarrow>
          (case rekey flagsArray Map.empty of
             Inl p \<Rightarrow> Inl p
           | Inr flags \<Rightarrow> Inr (Inr flags)))"

text \<open>The flags of an array that carry a given key, in array order.\<close>

definition keyed :: "flag list \<Rightarrow> string \<Rightarrow> flag list" where
  "keyed fs k = filter (\<lambda>f. Key f = k) fs"

lemma rekey_objects:
  "rekey (map Some fs) m0 = Inr (m0 ++ map_of (rev (map (\<lambda>f. (Key f, f)) fs)))"
proof (induction fs arbitrary: m0)
  case Nil
  show ?case by simp
next
  case (Cons f fs)
  let ?rest = "map_of (rev (map (\<lambda>f. (Key f, f)) fs))"
  have "rekey (map Some (f # fs)) m0 = rekey (map Some fs) (m0(Key f \<mapsto> f))"
    by simp
  also have "\<dots> = Inr (m0(Key f \<mapsto> f) ++ ?rest)"
    by (rule Cons.IH)
  finally have run: "rekey (map Some (f # fs)) m0 = Inr (m0(Key f \<mapsto> f) ++ ?rest)" .
  have shift: "m0(Key f \<mapsto> f) ++ ?rest = m0 ++ (map_of [(Key f, f)] ++ ?rest)"
    by (rule ext) (simp add: map_add_def split: option.splits)
  have unfold: "map_of (rev (map (\<lambda>f. (Key f, f)) (f # fs))) = map_of [(Key f, f)] ++ ?rest"
    by (simp add: map_of_append)
  show ?case by (simp only: run shift unfold)
qed

lemma map_of_rev_keyed:
  "map_of (rev (map (\<lambda>f. (Key f, f)) fs)) k =
     (if keyed fs k = [] then None else Some (last (keyed fs k)))"
proof (induction fs)
  case Nil
  show ?case by (simp add: keyed_def)
next
  case (Cons f fs)
  then show ?case
    by (auto simp: keyed_def map_of_append map_add_def split: option.splits)
qed

lemma keyed_distinct:
  "distinct (map Key fs) \<Longrightarrow> f \<in> set fs \<Longrightarrow> keyed fs (Key f) = [f]"
proof (induction fs)
  case Nil
  then show ?case by simp
next
  case (Cons g fs)
  have none: "filter (\<lambda>h. Key h = Key g) fs = []"
  proof -
    from Cons.prems(1) have "Key g \<notin> Key ` set fs" by simp
    then have "Key h \<noteq> Key g" if "h \<in> set fs" for h
      using that by (metis imageI)
    then show ?thesis by (simp add: filter_empty_conv)
  qed
  show ?case
  proof (cases "f = g")
    case True
    with none show ?thesis by (simp add: keyed_def)
  next
    case False
    with Cons have "f \<in> set fs" "keyed fs (Key f) = [f]" by auto
    moreover from this Cons.prems(1) have "Key g \<noteq> Key f" by (auto simp: image_iff)
    ultimately show ?thesis by (simp add: keyed_def)
  qed
qed

text \<open>
  C2. Whenever the payload decodes to an array of flag objects \<open>fs\<close> (no null element),
  parseData returns a mapping whose keys are exactly the keys that occur in the array,
  one entry each; the entry of a key is a flag object of the array with that key (the last
  one, when the key repeats), unchanged; and when the keys of the array are pairwise
  distinct every flag of the array is found again under its own key.
\<close>

theorem parseData_roundtrip:
  assumes "unmarshal data = Inr (map Some fs)"
  shows "\<exists>m. parseData unmarshal data = Inr (Inr m)
           \<and> dom m = Key ` set fs
           \<and> (\<forall>k \<in> dom m. m k = Some (last (keyed fs k))
                 \<and> last (keyed fs k) \<in> set fs \<and> Key (last (keyed fs k)) = k)
           \<and> (distinct (map Key fs) \<longrightarrow> (\<forall>f \<in> set fs. m (Key f) = Some f))"
proof -
  let ?m = "map_of (rev (map (\<lambda>f. (Key f, f)) fs))"
  have run: "parseData unmarshal data = Inr (Inr ?m)"
    using assms by (simp add: parseData_def rekey_objects)
  have nonempty: "keyed fs k \<noteq> [] \<longleftrightarrow> k \<in> Key ` set fs" for k
    by (auto simp: keyed_def filter_empty_conv)
  have dom: "dom ?m = Key ` set fs"
    using nonempty by (auto simp: dom_def map_of_rev_keyed)
  have entry: "?m k = Some (last (keyed fs k)) \<and> last (keyed fs k) \<in> set fs
                 \<and> Key (last (keyed fs k)) = k" if "k \<in> dom ?m" for k
  proof -
    from that dom nonempty have ne: "keyed fs k \<noteq> []" by simp
    then have "last (keyed fs k) \<in> set (keyed fs k)" by simp
    then have "last (keyed fs k) \<in> set fs" "Key (last (keyed fs k)) = k"
      by (simp_all add: keyed_def)
    with ne show ?thesis by (simp add: map_of_rev_keyed)
  qed
  have found: "?m (Key f) = Some f" if "distinct (map Key fs)" "f \<in> set fs" for f
    using that by (simp add: map_of_rev_keyed keyed_distinct)
  from run dom entry found show ?thesis by blast
qed

theorem parseData_roundtrip_witness:
  "\<exists>m. parseData (\<lambda>d. Inr (map Some
           [\<lparr>Key = ''a'', Dependencies = [], Metadata = None\<rparr>,
            \<lparr>Key = ''b'', Dependencies = [''a''], Metadata = None\<rparr>])) ''payload'' = Inr (Inr m)
      \<and> dom m = {''a'', ''b''}
      \<and> m ''b'' = Some \<lparr>Key = ''b'', Dependencies = [''a''], Metadata = None\<rparr>"
proof -
  let ?a = "\<lparr>Key = ''a'', Dependencies = [], Metadata = None\<rparr>"
  let ?b = "\<lparr>Key = ''b'', Dependencies = [''a''], Metadata = None\<rparr>"
  let ?u = "\<lambda>d::string. (Inr (map Some [?a, ?b]) :: string + flag option list)"
  have h: "?u ''payload'' = Inr (map Some [?a, ?b])" by simp
  have d: "distinct (map Key [?a, ?b])" by simp
  from parseData_roundtrip [of ?u "''payload''" "[?a, ?b]", OF h] d
  obtain m where m: "parseData ?u ''payload'' = Inr (Inr m)" "dom m = Key ` set [?a, ?b]"
    "\<forall>f \<in> set [?a, ?b]. m (Key f) = Some f"
    by blast
  from m(3) have "m ''b'' = Some ?b" by simp
  moreover from m(2) have "dom m = {''a'', ''b''}" by simp
  ultimately show ?thesis using m(1) by blast
qed

subsection \<open>Channels, the transport and the client\<close>

text \<open>
  The channels of this file are only ever closed and selected on. \<open>close\<close> panics on a
  nil channel and on a channel that is closed already.
\<close>

datatype chan = Open | Closed

fun close_chan :: "chan option \<Rightarrow> fault + chan option" where
  "close_chan None = Inl (Panic ''close of nil channel'')"
| "close_chan (Some Closed) = Inl (Panic ''close of closed channel'')"
| "close_chan (Some Open) = Inr (Some Closed)"

text \<open>
  Where the goroutine that \<open>Connect\<close> starts stands: not started, at its \<open>select\<close>,
  inside \<open>closeAllAndNotify(err)\<close> waiting for \<open>a.lock\<close>, or returned.
\<close>

datatype loop_state = NotStarted | Selecting | Notifying string | Returned

text \<open>
  Everything one call of \<open>Connect\<close> creates: the stream (\<open>cancels\<close> counts
  \<open>stream.Cancel()\<close>), its two channels, the local \<open>stopCh\<close> (nil until made), the
  goroutine, and the errors this goroutine passed to \<open>a.OnError\<close>.
\<close>

record stream_conn =
  cancels :: nat
  streamMsgCh :: "chan option"
  streamErrCh :: "chan option"
  c_stopCh :: "chan option"
  loop :: loop_state
  onErrorCalls :: "string list"

definition no_stream :: stream_conn where
  "no_stream = \<lparr>cancels = 0, streamMsgCh = None, streamErrCh = None, c_stopCh = None,
                 loop = NotStarted, onErrorCalls = []\<rparr>"

definition new_stream :: stream_conn where
  "new_stream = \<lparr>cancels = 0, streamMsgCh = Some Open, streamErrCh = Some Open,
                  c_stopCh = None, loop = NotStarted, onErrorCalls = []\<rparr>"

text \<open>
  The struct \<open>flagConfigStreamApiV2\<close> together with the connections made so far.
  \<open>stopCh\<close> is a reference: \<open>Some i\<close> is the stop channel of connection \<open>i\<close>, \<open>None\<close>
  is nil. \<open>OnError\<close> says whether the callback is set; its calls are logged per
  connection. \<open>updates\<close> logs the maps handed to \<open>OnUpdate\<close> by the loop's
  \<open>go func() {a.OnUpdate(flags)}()\<close>. The three durations are left out: which branch
  of a \<open>select\<close> wins is an input of the model. \<open>a.lock\<close> is held through
  \<open>Connect\<close>, \<open>Close\<close> and the body of \<open>closeAllAndNotify\<close>, so each is one
  atomic step.
\<close>

record stream_api =
  OnInitUpdate :: "((string \<rightharpoonup> flag) \<Rightarrow> string option) option"
  OnUpdate :: "((string \<rightharpoonup> flag) \<Rightarrow> string option) option"
  OnError :: bool
  DeploymentKey :: string
  ServerURL :: string
  stopCh :: "nat option"
  conns :: "nat \<Rightarrow> stream_conn"
  nconns :: nat
  updates :: "(string \<rightharpoonup> flag) list"

definition NewFlagConfigStreamApiV2 :: "string \<Rightarrow> string \<Rightarrow> stream_api" where
  "NewFlagConfigStreamApiV2 deploymentKey serverURL =
     \<lparr>OnInitUpdate = None, OnUpdate = None, OnError = False,
      DeploymentKey = deploymentKey, ServerURL = serverURL, stopCh = None,
      conns = (\<lambda>i. no_stream), nconns = 0, updates = []\<rparr>"

text \<open>The two functions of the Go library that \<open>Connect\<close> calls.\<close>

record golib =
  url_Parse :: "string \<Rightarrow> string + string"
  json_Unmarshal :: "string \<Rightarrow> string + flag option list"

subsection \<open>closeInternal, Close, Connect\<close>

definition closeStream :: "stream_conn \<Rightarrow> fault + stream_conn" where
  "closeStream c =
     (case close_chan (streamMsgCh c) of
        Inl p \<Rightarrow> Inl p
      | Inr m \<Rightarrow>
          (case close_chan (streamErrCh c) of
             Inl p \<Rightarrow> Inl p
           | Inr e \<Rightarrow> Inr (c\<lparr>cancels := Suc (cancels c), streamMsgCh := m, streamErrCh := e\<rparr>)))"

definition closeInternal :: "stream_api \<Rightarrow> fault + (string option \<times> stream_api)" where
  "closeInternal a =
     (case stopCh a of
        None \<Rightarrow> Inr (None, a)
      | Some i \<Rightarrow>
          (case close_chan (c_stopCh (conns a i)) of
             Inl p \<Rightarrow> Inl p
           | Inr ch \<Rightarrow>
               Inr (None, a\<lparr>conns := (conns a)(i := (conns a i)\<lparr>c_stopCh := ch\<rparr>),
                            stopCh := None\<rparr>)))"

definition Close :: "stream_api \<Rightarrow> fault + (string option \<times> stream_api)" where
  "Close a = closeInternal a"

text \<open>The outcome that wins the \<open>select\<close> of \<open>Connect\<close>.\<close>

datatype race = FirstMessage string | TransportError string | Timeout

text \<open>An init error: \<open>closeStream(); return err\<close>.\<close>

definition abort :: "nat \<Rightarrow> string \<Rightarrow> stream_api \<Rightarrow> fault + (string option \<times> stream_api)" where
  "abort i err a =
     (case closeStream (conns a i) of
        Inl p \<Rightarrow> Inl p
      | Inr c \<Rightarrow> Inr (Some err, a\<lparr>conns := (conns a)(i := c)\<rparr>))"

text \<open>The callback that receives the first configuration.\<close>

definition firstUpdate :: "stream_api \<Rightarrow> (string \<rightharpoonup> flag) \<Rightarrow> string option" where
  "firstUpdate a flags =
     (case OnInitUpdate a of
        Some f \<Rightarrow> f flags
      | None \<Rightarrow> (case OnUpdate a of Some f \<Rightarrow> f flags | None \<Rightarrow> None))"

text \<open>\<open>a.stopCh = stopCh\<close> and the start of the goroutine.\<close>

definition start :: "nat \<Rightarrow> stream_api \<Rightarrow> stream_api" where
  "start i a =
     a\<lparr>stopCh := Some i,
       conns := (conns a)(i := (conns a i)\<lparr>c_stopCh := Some Open, loop := Selecting\<rparr>)\<rparr>"

definition Connect :: "golib \<Rightarrow> race \<Rightarrow> stream_api \<Rightarrow> fault + (string option \<times> stream_api)" where
  "Connect lib won a =
     (case closeInternal a of
        Inl p \<Rightarrow> Inl p
      | Inr (err0, a1) \<Rightarrow>
          (case err0 of
             Some err \<Rightarrow> Inr (Some err, a1)
           | None \<Rightarrow>
               (case url_Parse lib (ServerURL a1) of
                  Inl err \<Rightarrow> Inr (Some err, a1)
                | Inr endpoint \<Rightarrow>
                    (let i = nconns a1;
                         a2 = a1\<lparr>conns := (conns a1)(i := new_stream), nconns := Suc i\<rparr>
                     in case won of
                          FirstMessage data \<Rightarrow>
                            (case parseData (json_Unmarshal lib) data of
                               Inl p \<Rightarrow> Inl p
                             | Inr (Inl err) \<Rightarrow>
                                 abort i (''stream corrupt data, cause: '' @ err) a2
                             | Inr (Inr flags) \<Rightarrow>
                                 (case firstUpdate a2 flags of
                                    Some err \<Rightarrow> abort i err a2
                                  | None \<Rightarrow> Inr (None, start i a2)))
                        | TransportError err \<Rightarrow> abort i err a2
                        | Timeout \<Rightarrow> abort i ''stream connect timeout'' a2))))"

subsection \<open>The background loop and the scheduler\<close>

definition closeAllAndNotify :: "nat \<Rightarrow> string \<Rightarrow> stream_api \<Rightarrow> fault + stream_api" where
  "closeAllAndNotify i err a =
     (case closeStream (conns a i) of
        Inl p \<Rightarrow> Inl p
      | Inr c1 \<Rightarrow>
          (let a1 = (if stopCh a = Some i then a\<lparr>stopCh := None\<rparr> else a) in
           case close_chan (c_stopCh c1) of
             Inl p \<Rightarrow> Inl p
           | Inr ch \<Rightarrow>
               (let c2 = c1\<lparr>c_stopCh := ch\<rparr>;
                    c3 = (if OnError a1 then c2\<lparr>onErrorCalls := onErrorCalls c2 @ [err]\<rparr> else c2)
                in Inr (a1\<lparr>conns := (conns a1)(i := c3\<lparr>loop := Returned\<rparr>)\<rparr>))))"

text \<open>
  What can happen next: a call of \<open>Connect\<close> (with the outcome of its race) or of
  \<open>Close\<close>, or a move of the goroutine of connection \<open>i\<close>: its \<open>select\<close> takes the
  stop branch (ready once the stop channel is closed), receives a message, or receives
  a transport error; or a goroutine that has called \<open>closeAllAndNotify\<close> gets the lock.
\<close>

datatype event =
    EvConnect race
  | EvClose
  | EvLoopStop nat
  | EvLoopMsg nat string
  | EvLoopErr nat string
  | EvLoopNotify nat

definition set_loop :: "nat \<Rightarrow> loop_state \<Rightarrow> stream_api \<Rightarrow> stream_api" where
  "set_loop i l a = a\<lparr>conns := (conns a)(i := (conns a i)\<lparr>loop := l\<rparr>)\<rparr>"

fun step :: "golib \<Rightarrow> event \<Rightarrow> stream_api \<Rightarrow> fault + stream_api" where
  "step lib (EvConnect won) a =
     (case Connect lib won a of Inl p \<Rightarrow> Inl p | Inr (err, a') \<Rightarrow> Inr a')"
| "step lib EvClose a =
     (case Close a of Inl p \<Rightarrow> Inl p | Inr (err, a') \<Rightarrow> Inr a')"
| "step lib (EvLoopStop i) a =
     (if loop (conns a i) = Selecting \<and> c_stopCh (conns a i) = Some Closed
      then (case closeStream (conns a i) of
              Inl p \<Rightarrow> Inl p
            | Inr c \<Rightarrow> Inr (a\<lparr>conns := (conns a)(i := c\<lparr>loop := Returned\<rparr>)\<rparr>))
      else Inl NotEnabled)"
| "step lib (EvLoopMsg i data) a =
     (if loop (conns a i) = Selecting
      then (case parseData (json_Unmarshal lib) data of
              Inl p \<Rightarrow> Inl p
            | Inr (Inl err) \<Rightarrow>
                Inr (set_loop i (Notifying (''stream corrupt data, cause: '' @ err)) a)
            | Inr (Inr flags) \<Rightarrow>
                Inr (if OnUpdate a \<noteq> None then a\<lparr>updates := updates a @ [flags]\<rparr> else a))
      else Inl NotEnabled)"
| "step lib (EvLoopErr i err) a =
     (if loop (conns a i) = Selecting then Inr (set_loop i (Notifying err) a)
      else Inl NotEnabled)"
| "step lib (EvLoopNotify i) a =
     (case loop (conns a i) of
        Notifying err \<Rightarrow> closeAllAndNotify i err a
      | _ \<Rightarrow> Inl NotEnabled)"

fun run :: "golib \<Rightarrow> event list \<Rightarrow> stream_api \<Rightarrow> fault + stream_api" where
  "run lib [] a = Inr a"
| "run lib (e # es) a = (case step lib e a of Inl p \<Rightarrow> Inl p | Inr a' \<Rightarrow> run lib es a')"

text \<open>
  C1. The claim fails on the code. Connection 0 is established; its goroutine receives a
  transport error and calls \<open>closeAllAndNotify\<close>; before that call gets the lock,
  \<open>Close()\<close> runs and closes the stop channel; \<open>closeAllAndNotify\<close> then skips
  \<open>a.stopCh = nil\<close> (the guard sees that \<open>a.stopCh\<close> is no longer its channel) but
  still runs \<open>close(stopCh)\<close>, which panics.
\<close>

theorem Close_racing_error_handler_panics:
  "run \<lparr>url_Parse = Inr, json_Unmarshal = (\<lambda>d. Inr [])\<rparr>
       [EvConnect (FirstMessage ''[]''), EvLoopErr 0 ''EOF'', EvClose, EvLoopNotify 0]
       (NewFlagConfigStreamApiV2 ''key'' ''https://stream'')
     = Inl (Panic ''close of closed channel'')"
  by (simp add: NewFlagConfigStreamApiV2_def Connect_def Close_def closeInternal_def
      parseData_def firstUpdate_def start_def new_stream_def set_loop_def
      closeAllAndNotify_def closeStream_def)

subsection \<open>The outcomes of Connect\<close>

text \<open>
  \<open>stop_ok\<close>: \<open>a.stopCh\<close>, when it is not nil, is a channel that is still open. It
  holds for a new client and after every step (\<open>run_stop_ok\<close> below), and it is what
  keeps the \<open>closeInternal\<close> at the head of \<open>Connect\<close> from panicking.
  \<open>torn_down a a'\<close>: the call made connection number \<open>nconns a\<close>, cancelled its
  stream once, closed its two channels, started no goroutine and left \<open>a.stopCh\<close>
  nil. \<open>started a a'\<close>: the connection is up and its goroutine is at its
  \<open>select\<close>.
\<close>

definition stop_ok :: "stream_api \<Rightarrow> bool" where
  "stop_ok a = (case stopCh a of None \<Rightarrow> True | Some j \<Rightarrow> c_stopCh (conns a j) = Some Open)"

definition same_loops :: "stream_api \<Rightarrow> stream_api \<Rightarrow> bool" where
  "same_loops a a' = (\<forall>j. j \<noteq> nconns a \<longrightarrow> loop (conns a' j) = loop (conns a j))"

definition torn_down :: "stream_api \<Rightarrow> stream_api \<Rightarrow> bool" where
  "torn_down a a' =
     (nconns a' = Suc (nconns a) \<and> stopCh a' = None
      \<and> cancels (conns a' (nconns a)) = 1
      \<and> streamMsgCh (conns a' (nconns a)) = Some Closed
      \<and> streamErrCh (conns a' (nconns a)) = Some Closed
      \<and> loop (conns a' (nconns a)) = NotStarted
      \<and> same_loops a a')"

definition started :: "stream_api \<Rightarrow> stream_api \<Rightarrow> bool" where
  "started a a' =
     (nconns a' = Suc (nconns a) \<and> stopCh a' = Some (nconns a)
      \<and> cancels (conns a' (nconns a)) = 0
      \<and> streamMsgCh (conns a' (nconns a)) = Some Open
      \<and> streamErrCh (conns a' (nconns a)) = Some Open
      \<and> c_stopCh (conns a' (nconns a)) = Some Open
      \<and> loop (conns a' (nconns a)) = Selecting
      \<and> onErrorCalls (conns a' (nconns a)) = []
      \<and> same_loops a a')"

lemma closeInternal_ok:
  assumes "stop_ok a"
  obtains a1 where "closeInternal a = Inr (None, a1)" "stopCh a1 = None"
    "nconns a1 = nconns a" "ServerURL a1 = ServerURL a"
    "OnInitUpdate a1 = OnInitUpdate a" "OnUpdate a1 = OnUpdate a"
    "\<forall>j. loop (conns a1 j) = loop (conns a j)"
  using assms by (auto simp: stop_ok_def closeInternal_def split: option.splits)

lemma abort_new:
  "conns a i = new_stream \<Longrightarrow>
   abort i err a = Inr (Some err, a\<lparr>conns := (conns a)(i := new_stream\<lparr>cancels := 1, streamMsgCh := Some Closed, streamErrCh := Some Closed\<rparr>)\<rparr>)"
  by (simp add: abort_def closeStream_def new_stream_def)

lemma abort_torn_down:
  assumes "stopCh a1 = None" "nconns a1 = nconns a" "\<forall>j. loop (conns a1 j) = loop (conns a j)"
  shows "\<exists>a'. abort (nconns a1) err (a1\<lparr>conns := (conns a1)(nconns a1 := new_stream), nconns := Suc (nconns a1)\<rparr>)
            = Inr (Some err, a') \<and> torn_down a a'"
  using assms by (simp add: abort_new torn_down_def same_loops_def new_stream_def)

lemma start_started:
  assumes "stopCh a1 = None" "nconns a1 = nconns a" "\<forall>j. loop (conns a1 j) = loop (conns a j)"
  shows "started a (start (nconns a1) (a1\<lparr>conns := (conns a1)(nconns a1 := new_stream), nconns := Suc (nconns a1)\<rparr>))"
  using assms by (simp add: start_def started_def same_loops_def new_stream_def)

lemma firstUpdate_cong:
  "OnInitUpdate a1 = OnInitUpdate a \<Longrightarrow> OnUpdate a1 = OnUpdate a \<Longrightarrow> firstUpdate a1 = firstUpdate a"
  by (rule ext) (simp add: firstUpdate_def split: option.splits)

lemma stop_ok_new: "stop_ok (NewFlagConfigStreamApiV2 k u)"
  by (simp add: stop_ok_def NewFlagConfigStreamApiV2_def)

lemma Connect_stop_ok:
  assumes "Connect lib won a = Inr (e, a')"
  shows "stop_ok a'"
proof -
  from assms obtain e1 a1 where c: "closeInternal a = Inr (e1, a1)"
    by (auto simp: Connect_def split: sum.splits)
  then have n: "stopCh a1 = None"
    by (auto simp: closeInternal_def split: option.splits sum.splits)
  let ?a2 = "a1\<lparr>conns := (conns a1)(nconns a1 := new_stream), nconns := Suc (nconns a1)\<rparr>"
  from assms c have "a' = a1 \<or> (\<exists>err. abort (nconns a1) err ?a2 = Inr (e, a'))
      \<or> a' = start (nconns a1) ?a2"
    by (auto simp: Connect_def Let_def split: sum.splits option.splits race.splits)
  with n show ?thesis
    by (auto simp: stop_ok_def abort_def closeStream_def new_stream_def start_def
             split: sum.splits)
qed

lemma step_stop_ok:
  assumes "step lib ev a = Inr a'" "stop_ok a"
  shows "stop_ok a'"
proof (cases ev)
  case (EvConnect won)
  with assms show ?thesis by (auto split: sum.splits dest: Connect_stop_ok)
next
  case EvClose
  with assms show ?thesis
    by (auto simp: Close_def closeInternal_def stop_ok_def split: sum.splits option.splits)
next
  case (EvLoopStop i)
  with assms show ?thesis
    by (auto simp: stop_ok_def closeStream_def split: sum.splits option.splits if_splits)
next
  case (EvLoopMsg i data)
  with assms show ?thesis
    by (auto simp: stop_ok_def set_loop_def split: sum.splits option.splits if_splits)
next
  case (EvLoopErr i err)
  with assms show ?thesis
    by (auto simp: stop_ok_def set_loop_def split: sum.splits option.splits if_splits)
next
  case (EvLoopNotify i)
  with assms show ?thesis
    by (auto simp: stop_ok_def closeAllAndNotify_def closeStream_def Let_def
             split: sum.splits option.splits if_splits loop_state.splits)
qed

lemma run_stop_ok:
  "run lib evs a = Inr a' \<Longrightarrow> stop_ok a \<Longrightarrow> stop_ok a'"
proof (induction evs arbitrary: a)
  case Nil
  then show ?case by simp
next
  case (Cons ev evs)
  from Cons.prems(1) obtain b where b: "step lib ev a = Inr b" "run lib evs b = Inr a'"
    by (auto split: sum.splits)
  from b(1) Cons.prems(2) have "stop_ok b" by (rule step_stop_ok)
  with b(2) show ?case by (rule Cons.IH)
qed

text \<open>
  The outcomes that \<open>Connect\<close> handles. From a state where \<open>a.stopCh\<close> is nil or
  open (every state the client reaches), \<open>Connect\<close> returns, and what it returns is
  fixed by the one outcome that wins its race. When the URL does not parse it returns that error before any transport is
  made. Otherwise: a transport error, the timeout, a first message that does not
  decode, and a first message that the callback rejects each give an error, with the
  transport torn down and no goroutine started; a first message that decodes to flag
  objects and is accepted gives nil, with the connection started. A first message that
  decodes to an array with a null element is not among them: see below.
\<close>

theorem Connect_outcomes:
  assumes "stop_ok a"
  shows "(\<forall>err. url_Parse lib (ServerURL a) = Inl err \<longrightarrow>
            (\<exists>a'. Connect lib won a = Inr (Some err, a') \<and> nconns a' = nconns a
                  \<and> stopCh a' = None \<and> (\<forall>j. loop (conns a' j) = loop (conns a j))))
       \<and> (\<forall>endpoint. url_Parse lib (ServerURL a) = Inr endpoint \<longrightarrow>
            (\<forall>err. won = TransportError err \<longrightarrow>
               (\<exists>a'. Connect lib won a = Inr (Some err, a') \<and> torn_down a a'))
          \<and> (won = Timeout \<longrightarrow>
               (\<exists>a'. Connect lib won a = Inr (Some ''stream connect timeout'', a') \<and> torn_down a a'))
          \<and> (\<forall>data err. won = FirstMessage data \<and> json_Unmarshal lib data = Inl err \<longrightarrow>
               (\<exists>a'. Connect lib won a = Inr (Some (''stream corrupt data, cause: '' @ err), a')
                     \<and> torn_down a a'))
          \<and> (\<forall>data fs. won = FirstMessage data \<and> json_Unmarshal lib data = Inr (map Some fs) \<longrightarrow>
               (\<exists>flags. parseData (json_Unmarshal lib) data = Inr (Inr flags)
                  \<and> (\<forall>err. firstUpdate a flags = Some err \<longrightarrow>
                        (\<exists>a'. Connect lib won a = Inr (Some err, a') \<and> torn_down a a'))
                  \<and> (firstUpdate a flags = None \<longrightarrow>
                        (\<exists>a'. Connect lib won a = Inr (None, a') \<and> started a a')))))"
proof -
  from assms obtain a1 where a1: "closeInternal a = Inr (None, a1)" "stopCh a1 = None"
    "nconns a1 = nconns a" "ServerURL a1 = ServerURL a"
    "OnInitUpdate a1 = OnInitUpdate a" "OnUpdate a1 = OnUpdate a"
    "\<forall>j. loop (conns a1 j) = loop (conns a j)"
    by (rule closeInternal_ok)
  let ?a2 = "a1\<lparr>conns := (conns a1)(nconns a1 := new_stream), nconns := Suc (nconns a1)\<rparr>"
  have fu: "firstUpdate ?a2 = firstUpdate a"
    using a1 by (intro firstUpdate_cong) simp_all
  have ab: "\<exists>a'. abort (nconns a1) err ?a2 = Inr (Some err, a') \<and> torn_down a a'" for err
    using a1 by (intro abort_torn_down) simp_all
  have st: "started a (start (nconns a1) ?a2)"
    using a1 by (intro start_started) simp_all
  have nourl: "\<exists>a'. Connect lib won a = Inr (Some err, a') \<and> nconns a' = nconns a
                  \<and> stopCh a' = None \<and> (\<forall>j. loop (conns a' j) = loop (conns a j))"
    if "url_Parse lib (ServerURL a) = Inl err" for err
    using that a1 by (simp add: Connect_def)
  have terr: "\<exists>a'. Connect lib won a = Inr (Some err, a') \<and> torn_down a a'"
    if "url_Parse lib (ServerURL a) = Inr endpoint" "won = TransportError err" for endpoint err
    using that a1 ab [of err] by (simp add: Connect_def Let_def)
  have tout: "\<exists>a'. Connect lib won a = Inr (Some ''stream connect timeout'', a') \<and> torn_down a a'"
    if "url_Parse lib (ServerURL a) = Inr endpoint" "won = Timeout" for endpoint
    using that a1 ab [of "''stream connect timeout''"] by (simp add: Connect_def Let_def)
  have corrupt: "\<exists>a'. Connect lib won a = Inr (Some (''stream corrupt data, cause: '' @ err), a')
                     \<and> torn_down a a'"
    if "url_Parse lib (ServerURL a) = Inr endpoint" "won = FirstMessage data"
       "json_Unmarshal lib data = Inl err" for endpoint data err
    using that a1 ab [of "''stream corrupt data, cause: '' @ err"]
    by (simp add: Connect_def Let_def parseData_def)
  have first: "\<exists>flags. parseData (json_Unmarshal lib) data = Inr (Inr flags)
                  \<and> (\<forall>err. firstUpdate a flags = Some err \<longrightarrow>
                        (\<exists>a'. Connect lib won a = Inr (Some err, a') \<and> torn_down a a'))
                  \<and> (firstUpdate a flags = None \<longrightarrow>
                        (\<exists>a'. Connect lib won a = Inr (None, a') \<and> started a a'))"
    if u: "url_Parse lib (ServerURL a) = Inr endpoint" and w: "won = FirstMessage data"
       and d: "json_Unmarshal lib data = Inr (map Some fs)" for endpoint data fs
  proof -
    from d obtain flags where p: "parseData (json_Unmarshal lib) data = Inr (Inr flags)"
      by (auto simp: parseData_def rekey_objects)
    have rej: "\<exists>a'. Connect lib won a = Inr (Some err, a') \<and> torn_down a a'"
      if "firstUpdate a flags = Some err" for err
      using that u w p a1 fu ab [of err] by (simp add: Connect_def Let_def)
    have acc: "\<exists>a'. Connect lib won a = Inr (None, a') \<and> started a a'"
      if "firstUpdate a flags = None"
      using that u w p a1 fu st by (simp add: Connect_def Let_def)
    show ?thesis
    proof (intro exI [of _ flags] conjI allI impI)
      show "parseData (json_Unmarshal lib) data = Inr (Inr flags)" by (fact p)
    qed (erule rej, erule acc)
  qed
  from nourl terr tout corrupt first show ?thesis by blast
qed


theorem Connect_outcomes_witness:
  "stop_ok (NewFlagConfigStreamApiV2 ''key'' ''https://stream'')
   \<and> (\<exists>a'. Connect \<lparr>url_Parse = Inr, json_Unmarshal = (\<lambda>d. Inl ''unexpected end of JSON input'')\<rparr>
              Timeout (NewFlagConfigStreamApiV2 ''key'' ''https://stream'')
            = Inr (Some ''stream connect timeout'', a')
          \<and> torn_down (NewFlagConfigStreamApiV2 ''key'' ''https://stream'') a')
   \<and> (\<exists>a'. Connect \<lparr>url_Parse = Inr, json_Unmarshal = (\<lambda>d. Inl ''unexpected end of JSON input'')\<rparr>
              (FirstMessage ''['') (NewFlagConfigStreamApiV2 ''key'' ''https://stream'')
            = Inr (Some ''stream corrupt data, cause: unexpected end of JSON input'', a')
          \<and> torn_down (NewFlagConfigStreamApiV2 ''key'' ''https://stream'') a')"
proof -
  let ?a = "NewFlagConfigStreamApiV2 ''key'' ''https://stream''"
  let ?lib = "\<lparr>url_Parse = Inr, json_Unmarshal = (\<lambda>d::string. Inl ''unexpected end of JSON input'')\<rparr>"
  have ok: "stop_ok ?a" by (rule stop_ok_new)
  have url: "url_Parse ?lib (ServerURL ?a) = Inr ''https://stream''"
    by (simp add: NewFlagConfigStreamApiV2_def)
  have dec: "json_Unmarshal ?lib ''['' = Inl ''unexpected end of JSON input''" by simp
  from Connect_outcomes [OF ok, of ?lib Timeout] url
  have t: "\<exists>a'. Connect ?lib Timeout ?a = Inr (Some ''stream connect timeout'', a') \<and> torn_down ?a a'"
    by blast
  from Connect_outcomes [OF ok, of ?lib "FirstMessage ''[''"] url dec
  have c: "\<exists>a'. Connect ?lib (FirstMessage ''['') ?a
              = Inr (Some (''stream corrupt data, cause: '' @ ''unexpected end of JSON input''), a')
            \<and> torn_down ?a a'"
    by blast
  from ok t c show ?thesis by simp
qed

text \<open>
  C3. The claim fails on the code. The first message is the payload \<open>[null]\<close>:
  \<open>json.Unmarshal\<close> succeeds and gives a slice holding one nil pointer, so
  \<open>parseData\<close> passes its error check and dereferences nil at \<open>flag.Key\<close>. The
  first message arrived and was not accepted, yet \<open>Connect\<close> neither returns an error
  nor runs \<open>closeStream()\<close>: it panics, with the transport open.
\<close>

theorem Connect_null_element_panics:
  "Connect \<lparr>url_Parse = Inr, json_Unmarshal = (\<lambda>d. Inr [None])\<rparr>
       (FirstMessage ''[null]'') (NewFlagConfigStreamApiV2 ''key'' ''https://stream'')
     = Inl (Panic ''nil pointer dereference'')"
  by (simp add: NewFlagConfigStreamApiV2_def Connect_def closeInternal_def parseData_def)

subsection \<open>The error callback\<close>

text \<open>
  \<open>calls_ok\<close>: a goroutine that has not returned has not called \<open>a.OnError\<close>, and one
  that has returned has called it at most once. \<open>alive a i\<close>: connection \<open>i\<close> is the
  client's current connection, up, with its goroutine at its \<open>select\<close> and its stop
  channel open. \<open>released\<close>: the stream was cancelled once and its channels are closed.
\<close>

definition calls_ok :: "stream_conn \<Rightarrow> bool" where
  "calls_ok c = (length (onErrorCalls c) \<le> (if loop c = Returned then 1 else 0))"

definition notify_inv :: "stream_api \<Rightarrow> bool" where
  "notify_inv a = (\<forall>j. calls_ok (conns a j))"

definition alive :: "stream_api \<Rightarrow> nat \<Rightarrow> bool" where
  "alive a i =
     (stopCh a = Some i \<and> loop (conns a i) = Selecting
      \<and> c_stopCh (conns a i) = Some Open \<and> cancels (conns a i) = 0
      \<and> streamMsgCh (conns a i) = Some Open \<and> streamErrCh (conns a i) = Some Open
      \<and> onErrorCalls (conns a i) = [])"

definition released :: "stream_conn \<Rightarrow> bool" where
  "released c = (cancels c = 1 \<and> streamMsgCh c = Some Closed \<and> streamErrCh c = Some Closed)"

lemma closeStream_keeps:
  "closeStream c = Inr c' \<Longrightarrow> loop c' = loop c \<and> onErrorCalls c' = onErrorCalls c \<and> c_stopCh c' = c_stopCh c"
  by (auto simp: closeStream_def split: sum.splits)

lemma notify_inv_pointwise:
  "notify_inv a \<Longrightarrow> (\<And>j. calls_ok (conns a j) \<Longrightarrow> calls_ok (conns a' j)) \<Longrightarrow> notify_inv a'"
  by (simp add: notify_inv_def)

lemma closeInternal_inv:
  assumes "closeInternal a = Inr (e, a')" "notify_inv a"
  shows "notify_inv a'"
proof (rule notify_inv_pointwise [OF assms(2)])
  fix j assume "calls_ok (conns a j)"
  with assms(1) show "calls_ok (conns a' j)"
    by (auto simp: closeInternal_def calls_ok_def split: option.splits sum.splits)
qed

lemma abort_inv:
  assumes "abort i err a = Inr (e, a')" "notify_inv a"
  shows "notify_inv a'"
proof (rule notify_inv_pointwise [OF assms(2)])
  fix j assume "calls_ok (conns a j)"
  with assms(1) show "calls_ok (conns a' j)"
    by (auto simp: abort_def calls_ok_def split: sum.splits dest!: closeStream_keeps)
qed

lemma new_inv:
  assumes "notify_inv a"
  shows "notify_inv (a\<lparr>conns := (conns a)(i := new_stream), nconns := n\<rparr>)"
proof (rule notify_inv_pointwise [OF assms])
  fix j assume "calls_ok (conns a j)"
  then show "calls_ok (conns (a\<lparr>conns := (conns a)(i := new_stream), nconns := n\<rparr>) j)"
    by (auto simp: calls_ok_def new_stream_def split: if_splits)
qed

lemma start_inv:
  assumes "notify_inv a" "conns a i = new_stream"
  shows "notify_inv (start i a)"
proof (rule notify_inv_pointwise [OF assms(1)])
  fix j assume "calls_ok (conns a j)"
  with assms(2) show "calls_ok (conns (start i a) j)"
    by (auto simp: start_def calls_ok_def new_stream_def split: if_splits)
qed

lemma Connect_inv:
  assumes "Connect lib won a = Inr (e, a')" "notify_inv a"
  shows "notify_inv a'"
proof -
  from assms(1) obtain e1 a1 where c: "closeInternal a = Inr (e1, a1)"
    by (auto simp: Connect_def split: sum.splits)
  from c assms(2) have i1: "notify_inv a1" by (rule closeInternal_inv)
  let ?a2 = "a1\<lparr>conns := (conns a1)(nconns a1 := new_stream), nconns := Suc (nconns a1)\<rparr>"
  from i1 have i2: "notify_inv ?a2" by (rule new_inv)
  have i3: "notify_inv (start (nconns a1) ?a2)"
    using i2 by (rule start_inv) simp
  from assms(1) c have "a' = a1 \<or> (\<exists>err. abort (nconns a1) err ?a2 = Inr (e, a'))
      \<or> a' = start (nconns a1) ?a2"
    by (auto simp: Connect_def Let_def split: sum.splits option.splits race.splits)
  with i1 i2 i3 show ?thesis by (auto dest: abort_inv)
qed

lemma closeAllAndNotify_inv:
  assumes "closeAllAndNotify i err a = Inr a'" "notify_inv a" "loop (conns a i) = Notifying e0"
  shows "notify_inv a'"
proof (rule notify_inv_pointwise [OF assms(2)])
  fix j assume "calls_ok (conns a j)"
  with assms(1,3) show "calls_ok (conns a' j)"
    by (auto simp: closeAllAndNotify_def Let_def calls_ok_def
             split: sum.splits if_splits dest!: closeStream_keeps)
qed

lemma step_inv:
  assumes "step lib ev a = Inr a'" "notify_inv a"
  shows "notify_inv a'"
proof (cases ev)
  case (EvConnect won)
  with assms show ?thesis by (auto split: sum.splits dest: Connect_inv)
next
  case EvClose
  with assms show ?thesis by (auto simp: Close_def split: sum.splits dest: closeInternal_inv)
next
  case (EvLoopStop i)
  show ?thesis
  proof (rule notify_inv_pointwise [OF assms(2)])
    fix j assume "calls_ok (conns a j)"
    with assms(1) EvLoopStop show "calls_ok (conns a' j)"
      by (auto simp: calls_ok_def split: sum.splits if_splits dest!: closeStream_keeps)
  qed
next
  case (EvLoopMsg i data)
  show ?thesis
  proof (rule notify_inv_pointwise [OF assms(2)])
    fix j assume "calls_ok (conns a j)"
    with assms(1) EvLoopMsg show "calls_ok (conns a' j)"
      by (auto simp: calls_ok_def set_loop_def split: sum.splits if_splits)
  qed
next
  case (EvLoopErr i err)
  show ?thesis
  proof (rule notify_inv_pointwise [OF assms(2)])
    fix j assume "calls_ok (conns a j)"
    with assms(1) EvLoopErr show "calls_ok (conns a' j)"
      by (auto simp: calls_ok_def set_loop_def split: sum.splits if_splits)
  qed
next
  case (EvLoopNotify i)
  with assms show ?thesis
    by (auto split: loop_state.splits dest: closeAllAndNotify_inv)
qed

lemma run_inv:
  "run lib evs a = Inr a' \<Longrightarrow> notify_inv a \<Longrightarrow> notify_inv a'"
proof (induction evs arbitrary: a)
  case Nil
  then show ?case by simp
next
  case (Cons ev evs)
  from Cons.prems(1) obtain b where b: "step lib ev a = Inr b" "run lib evs b = Inr a'"
    by (auto split: sum.splits)
  from b(1) Cons.prems(2) have "notify_inv b" by (rule step_inv)
  with b(2) show ?case by (rule Cons.IH)
qed

lemma notify_inv_at_most_once: "notify_inv a \<Longrightarrow> length (onErrorCalls (conns a j)) \<le> 1"
  by (auto simp: notify_inv_def calls_ok_def dest!: spec [of _ j] split: if_splits)

lemma Connect_alive:
  assumes "Connect lib won a = Inr (None, a')"
  shows "alive a' (nconns a)"
proof -
  from assms obtain e1 a1 where c: "closeInternal a = Inr (e1, a1)"
    by (auto simp: Connect_def split: sum.splits)
  then have n: "nconns a1 = nconns a"
    by (auto simp: closeInternal_def split: option.splits sum.splits)
  let ?a2 = "a1\<lparr>conns := (conns a1)(nconns a1 := new_stream), nconns := Suc (nconns a1)\<rparr>"
  from assms c have "a' = start (nconns a1) ?a2"
    by (auto simp: Connect_def Let_def abort_def split: sum.splits option.splits race.splits)
  with n show ?thesis by (simp add: alive_def start_def new_stream_def)
qed

lemma alive_error:
  assumes "alive a i"
  shows "\<exists>a'. run lib [EvLoopErr i err, EvLoopNotify i] a = Inr a'
           \<and> onErrorCalls (conns a' i) = (if OnError a then [err] else [])
           \<and> stopCh a' = None \<and> loop (conns a' i) = Returned \<and> released (conns a' i)"
  using assms
  by (simp add: alive_def set_loop_def closeAllAndNotify_def closeStream_def released_def)

lemma alive_corrupt:
  assumes "alive a i" "json_Unmarshal lib data = Inl err"
  shows "\<exists>a'. run lib [EvLoopMsg i data, EvLoopNotify i] a = Inr a'
           \<and> onErrorCalls (conns a' i) =
               (if OnError a then [''stream corrupt data, cause: '' @ err] else [])
           \<and> stopCh a' = None \<and> loop (conns a' i) = Returned \<and> released (conns a' i)"
  using assms
  by (simp add: alive_def set_loop_def closeAllAndNotify_def closeStream_def released_def parseData_def)

lemma alive_update:
  assumes "alive a i" "json_Unmarshal lib data = Inr (map Some fs)"
  shows "\<exists>a'. step lib (EvLoopMsg i data) a = Inr a' \<and> alive a' i \<and> OnError a' = OnError a"
  using assms
  by (simp add: alive_def parseData_def rekey_objects)



text \<open>
  Without a racing error handler \<open>Close\<close> is safe: a second call finds \<open>a.stopCh\<close>
  nil and does nothing, and once the goroutine of a live connection sees the closed stop
  channel it releases the transport and returns, without calling the error callback.
\<close>

lemma Close_idempotent:
  assumes "stop_ok a"
  shows "\<exists>a1. Close a = Inr (None, a1) \<and> stopCh a1 = None \<and> Close a1 = Inr (None, a1)"
  using assms by (auto simp: Close_def closeInternal_def stop_ok_def split: option.splits)

lemma Close_then_stop_releases:
  assumes "alive a i"
  shows "\<exists>a'. run lib [EvClose, EvClose, EvLoopStop i] a = Inr a'
           \<and> stopCh a' = None \<and> c_stopCh (conns a' i) = Some Closed
           \<and> loop (conns a' i) = Returned \<and> released (conns a' i)
           \<and> onErrorCalls (conns a' i) = []"
  using assms
  by (simp add: alive_def Close_def closeInternal_def closeStream_def released_def)

lemma notify_inv_new: "notify_inv (NewFlagConfigStreamApiV2 k u)"
  by (simp add: notify_inv_def calls_ok_def NewFlagConfigStreamApiV2_def no_stream_def)

text \<open>
  The error callback on a live connection. In every state \<open>a\<close> that the client
  reaches: no connection has had the error callback called more than once; a \<open>Connect\<close> that returns nil leaves its connection
  alive; an update that decodes keeps it alive; and when the goroutine of an alive
  connection receives a transport error, or a message that does not decode, it calls the
  callback (when one is set) exactly once with that error, sets \<open>a.stopCh\<close> to nil,
  releases the transport and returns.
\<close>

theorem OnError_once_per_connection:
  assumes "notify_inv a0" and "run lib evs a0 = Inr a"
  shows "(\<forall>j. length (onErrorCalls (conns a j)) \<le> 1)
       \<and> (\<forall>won a1. Connect lib won a = Inr (None, a1) \<longrightarrow> alive a1 (nconns a))
       \<and> (\<forall>i data fs. alive a i \<and> json_Unmarshal lib data = Inr (map Some fs) \<longrightarrow>
             (\<exists>a'. step lib (EvLoopMsg i data) a = Inr a' \<and> alive a' i \<and> OnError a' = OnError a))
       \<and> (\<forall>i err. alive a i \<longrightarrow>
             (\<exists>a'. run lib [EvLoopErr i err, EvLoopNotify i] a = Inr a'
                \<and> onErrorCalls (conns a' i) = (if OnError a then [err] else [])
                \<and> stopCh a' = None \<and> loop (conns a' i) = Returned \<and> released (conns a' i)))
       \<and> (\<forall>i data err. alive a i \<and> json_Unmarshal lib data = Inl err \<longrightarrow>
             (\<exists>a'. run lib [EvLoopMsg i data, EvLoopNotify i] a = Inr a'
                \<and> onErrorCalls (conns a' i) =
                    (if OnError a then [''stream corrupt data, cause: '' @ err] else [])
                \<and> stopCh a' = None \<and> loop (conns a' i) = Returned \<and> released (conns a' i)))"
proof -
  from assms(2,1) have "notify_inv a" by (rule run_inv)
  then have "length (onErrorCalls (conns a j)) \<le> 1" for j
    by (rule notify_inv_at_most_once)
  then have once: "\<forall>j. length (onErrorCalls (conns a j)) \<le> 1" ..
  from once Connect_alive alive_update alive_error alive_corrupt show ?thesis
    by (intro conjI allI impI) (assumption | blast)+
qed

theorem OnError_once_per_connection_witness:
  "notify_inv ((NewFlagConfigStreamApiV2 ''key'' ''https://stream'')\<lparr>OnError := True\<rparr>)
   \<and> (\<exists>a. run \<lparr>url_Parse = Inr, json_Unmarshal = (\<lambda>d. Inr [])\<rparr> [EvConnect (FirstMessage ''[]'')]
              ((NewFlagConfigStreamApiV2 ''key'' ''https://stream'')\<lparr>OnError := True\<rparr>) = Inr a
          \<and> alive a 0
          \<and> (\<exists>a'. run \<lparr>url_Parse = Inr, json_Unmarshal = (\<lambda>d. Inr [])\<rparr>
                       [EvLoopErr 0 ''EOF'', EvLoopNotify 0] a = Inr a'
                 \<and> onErrorCalls (conns a' 0) = [''EOF''] \<and> stopCh a' = None
                 \<and> loop (conns a' 0) = Returned))"
proof -
  let ?a0 = "(NewFlagConfigStreamApiV2 ''key'' ''https://stream'')\<lparr>OnError := True\<rparr>"
  let ?lib = "\<lparr>url_Parse = Inr, json_Unmarshal = (\<lambda>d::string. Inr [])\<rparr>"
  have inv: "notify_inv ?a0"
    by (simp add: notify_inv_def calls_ok_def NewFlagConfigStreamApiV2_def no_stream_def)
  obtain a where a: "run ?lib [EvConnect (FirstMessage ''[]'')] ?a0 = Inr a" "alive a 0"
    "OnError a"
    by (simp add: NewFlagConfigStreamApiV2_def Connect_def closeInternal_def
        parseData_def firstUpdate_def start_def new_stream_def alive_def)
  from OnError_once_per_connection [OF inv a(1)] a(2)
  have "\<exists>a'. run ?lib [EvLoopErr 0 ''EOF'', EvLoopNotify 0] a = Inr a'
           \<and> onErrorCalls (conns a' 0) = (if OnError a then [''EOF''] else [])
           \<and> stopCh a' = None \<and> loop (conns a' 0) = Returned \<and> released (conns a' 0)"
    by blast
  with a(3) obtain a' where a': "run ?lib [EvLoopErr 0 ''EOF'', EvLoopNotify 0] a = Inr a'"
    "onErrorCalls (conns a' 0) = [''EOF'']" "stopCh a' = None" "loop (conns a' 0) = Returned"
    by auto
  from inv a(1,2) a' show ?thesis by blast
qed

text \<open>
  C6. The claim fails on the code. The error callback is set and connection 0 is
  established; its goroutine receives a transport error and calls
  \<open>closeAllAndNotify\<close>; before that call gets the lock, a new \<open>Connect()\<close> runs, whose
  \<open>closeInternal\<close> closes the stop channel of connection 0. The handler then finds that
  \<open>a.stopCh\<close> is not its channel, skips \<open>a.stopCh = nil\<close>, and panics at
  \<open>close(stopCh)\<close>, which comes before \<open>a.OnError(err)\<close>: the transport error of
  connection 0 is never reported. It is the same unguarded \<open>close(stopCh)\<close> that
  makes \<open>Close()\<close> unsafe.
\<close>

theorem error_handler_overtaken_skips_OnError:
  "(case run \<lparr>url_Parse = Inr, json_Unmarshal = (\<lambda>d. Inr [])\<rparr>
           [EvConnect (FirstMessage ''[]''), EvLoopErr 0 ''EOF'', EvConnect (FirstMessage ''[]'')]
           ((NewFlagConfigStreamApiV2 ''key'' ''https://stream'')\<lparr>OnError := True\<rparr>) of
      Inl p \<Rightarrow> False
    | Inr a \<Rightarrow>
        OnError a \<and> loop (conns a 0) = Notifying ''EOF'' \<and> onErrorCalls (conns a 0) = []
        \<and> step \<lparr>url_Parse = Inr, json_Unmarshal = (\<lambda>d. Inr [])\<rparr> (EvLoopNotify 0) a
            = Inl (Panic ''close of closed channel''))"
  by (simp add: NewFlagConfigStreamApiV2_def Connect_def closeInternal_def
      parseData_def firstUpdate_def start_def new_stream_def set_loop_def
      closeAllAndNotify_def closeStream_def)

section \<open>The evaluation client (second part of assignment\_service.go)\<close>

subsection \<open>Data\<close>

text \<open>
  \<open>experiment.User\<close>, \<open>experiment.Variant\<close> and the engine's result type are declared
  outside the two files; the fields the code reads and writes are kept. Sets of cohort
  ids (\<open>map[string]struct{}\<close>) are sets. Pointers that the client itself creates (the
  user, the storages) are taken to be valid.
\<close>

record user =
  UserId :: string
  DeviceId :: string
  Groups :: "(string, string list) gomap"
  CohortIds :: "string set"
  GroupCohortIds :: "string \<times> string \<rightharpoonup> string set"

record variant =
  v_Key :: string
  v_Value :: string
  v_Payload :: val
  v_Metadata :: "string \<rightharpoonup> val"

record eval_result =
  r_Key :: string
  r_Value :: val
  r_Payload :: val
  r_Metadata :: "string \<rightharpoonup> val"

text \<open>
  Modelled from the spec: \<open>User.AddGroupCohortIDs\<close>, declared outside the two files. The
  design gives the user ``a mapping (group type, group name) \<open>\<rightarrow>\<close> cohort ids for
  groups''; attaching cohort ids stores them under that pair.
\<close>

definition AddGroupCohortIDs :: "user \<Rightarrow> string \<Rightarrow> string \<Rightarrow> string set \<Rightarrow> user" where
  "AddGroupCohortIDs u groupType groupName cohortIDs =
     u\<lparr>GroupCohortIds := (GroupCohortIds u)((groupType, groupName) \<mapsto> cohortIDs)\<rparr>"

text \<open>
  What \<open>Client\<close> calls and the two files do not define: the constant \<open>userGroupType\<close>,
  \<open>getGroupedCohortIDsFromFlags\<close>, the two lookups of the cohort storage (at the time
  of the call), \<open>evaluation.UserToContext\<close>, \<open>topologicalSort\<close>, the engine, the two
  renderings used by \<open>coerceString\<close>, and \<open>assignmentService.Track(newAssignment(\<dots>))\<close>
  as a transition of the assignment service. Each is a parameter: the theorems hold for
  every choice of them.
\<close>

record ('ctx, 'svc) collab =
  userGroupType :: string
  getGroupedCohortIDsFromFlags :: "flag list \<Rightarrow> (string \<rightharpoonup> string set)"
  GetCohortsForUser :: "string \<Rightarrow> string set \<Rightarrow> string set"
  GetCohortsForGroup :: "string \<Rightarrow> string \<Rightarrow> string set \<Rightarrow> string set"
  UserToContext :: "user \<Rightarrow> 'ctx"
  topologicalSort :: "(string, flag) gomap \<Rightarrow> string list \<Rightarrow> string + flag list"
  engine_Evaluate :: "'ctx \<Rightarrow> flag list \<Rightarrow> (string, eval_result) gomap"
  json_Marshal :: "val \<Rightarrow> string + string"
  fmt_Sprint :: "val \<Rightarrow> string"
  Track :: "'svc \<Rightarrow> user \<Rightarrow> (string, variant) gomap \<Rightarrow> 'svc"

text \<open>
  The fields of \<open>Client\<close> that \<open>Evaluate\<close>, \<open>EvaluateV2\<close> and \<open>FlagMetadata\<close> use:
  the snapshot that \<open>flagConfigStorage.GetFlagConfigs()\<close> returns, and the assignment
  service (\<open>None\<close> for nil).
\<close>

record 'svc Client =
  flagConfigStorage :: "(string, flag) gomap"
  assignmentService :: "'svc option"

definition GetFlagConfig :: "'svc Client \<Rightarrow> string \<Rightarrow> flag option" where
  "GetFlagConfig c flagKey = map_of (flagConfigStorage c) flagKey"

subsection \<open>coerceString, enrichUser, EvaluateV2, Evaluate\<close>

definition coerceString :: "('ctx, 'svc) collab \<Rightarrow> val \<Rightarrow> string" where
  "coerceString P v =
     (case v of
        VNil \<Rightarrow> []
      | VArr xs \<Rightarrow> (case json_Marshal P v of Inr b \<Rightarrow> b | Inl err \<Rightarrow> fmt_Sprint P v)
      | VObj kvs \<Rightarrow> (case json_Marshal P v of Inr b \<Rightarrow> b | Inl err \<Rightarrow> fmt_Sprint P v)
      | _ \<Rightarrow> fmt_Sprint P v)"

text \<open>One round of the loop over \<open>user.Groups\<close>.\<close>

definition enrichGroup ::
  "('ctx, 'svc) collab \<Rightarrow> (string \<rightharpoonup> string set) \<Rightarrow> string \<times> string list \<Rightarrow> user \<Rightarrow> user" where
  "enrichGroup P groupedCohortIDs g u =
     (let groupType = fst g;
          groupName = (case snd g of [] \<Rightarrow> [] | n # rest \<Rightarrow> n)
      in if groupName = [] then u
         else (case groupedCohortIDs groupType of
                 Some cohortIDs \<Rightarrow>
                   AddGroupCohortIDs u groupType groupName
                     (GetCohortsForGroup P groupType groupName cohortIDs)
               | None \<Rightarrow> u))"

definition enrichUser ::
  "('ctx, 'svc) collab \<Rightarrow> user \<Rightarrow> (string, flag) gomap \<Rightarrow> user \<times> string option" where
  "enrichUser P u flagConfigs =
     (let flagConfigSlice = map snd flagConfigs;
          groupedCohortIDs = getGroupedCohortIDsFromFlags P flagConfigSlice;
          u1 = (case groupedCohortIDs (userGroupType P) of
                  Some cohortIDs \<Rightarrow>
                    if cohortIDs \<noteq> {} \<and> UserId u \<noteq> []
                    then u\<lparr>CohortIds := GetCohortsForUser P (UserId u) cohortIDs\<rparr>
                    else u
                | None \<Rightarrow> u)
      in (fold (enrichGroup P groupedCohortIDs) (Groups u1) u1, None))"

definition toVariant :: "('ctx, 'svc) collab \<Rightarrow> eval_result \<Rightarrow> variant" where
  "toVariant P r =
     \<lparr>v_Key = r_Key r, v_Value = coerceString P (r_Value r), v_Payload = r_Payload r,
      v_Metadata = r_Metadata r\<rparr>"

text \<open>
  The call returns \<open>(variants, err)\<close>, here a sum; the user it was given is changed in
  place, and so is the assignment service: both are returned with the result.
\<close>

definition EvaluateV2 ::
  "('ctx, 'svc) collab \<Rightarrow> 'svc Client \<Rightarrow> user \<Rightarrow> string list
     \<Rightarrow> (string + (string, variant) gomap) \<times> user \<times> 'svc Client" where
  "EvaluateV2 P c u flagKeys =
     (let flagConfigs = flagConfigStorage c;
          (enrichedUser, err) = enrichUser P u flagConfigs
      in case err of
           Some e \<Rightarrow> (Inl e, enrichedUser, c)
         | None \<Rightarrow>
             (let userContext = UserToContext P enrichedUser
              in case topologicalSort P flagConfigs flagKeys of
                   Inl e \<Rightarrow> (Inl e, enrichedUser, c)
                 | Inr sortedFlags \<Rightarrow>
                     (let results = engine_Evaluate P userContext sortedFlags;
                          variants = fold (\<lambda>(key, result) vs. AList.update key (toVariant P result) vs)
                                       results [];
                          c' = (case assignmentService c of
                                  Some svc \<Rightarrow>
                                    c\<lparr>assignmentService := Some (Track P svc enrichedUser variants)\<rparr>
                                | None \<Rightarrow> c)
                      in (Inr variants, enrichedUser, c'))))"

definition isDefault :: "variant \<Rightarrow> bool" where
  "isDefault v = (case v_Metadata v ''default'' of Some (VBool b) \<Rightarrow> b | _ \<Rightarrow> False)"

definition isDeployed :: "variant \<Rightarrow> bool" where
  "isDeployed v = (case v_Metadata v ''deployed'' of Some (VBool b) \<Rightarrow> b | _ \<Rightarrow> True)"

definition Evaluate ::
  "('ctx, 'svc) collab \<Rightarrow> 'svc Client \<Rightarrow> user \<Rightarrow> string list
     \<Rightarrow> (string + (string, variant) gomap) \<times> user \<times> 'svc Client" where
  "Evaluate P c u flagKeys =
     (case EvaluateV2 P c u flagKeys of
        (Inl err, u', c') \<Rightarrow> (Inl err, u', c')
      | (Inr variants, u', c') \<Rightarrow>
          (Inr (fold (\<lambda>(key, v) results.
                        if \<not> isDefault v \<and> isDeployed v then AList.update key v results
                        else results)
                     variants []),
           u', c'))"

subsection \<open>FlagMetadata\<close>

text \<open>The entries of a map value: none for nil, the cell of the store otherwise.\<close>

definition entries :: "mapstore \<Rightarrow> addr option \<Rightarrow> (string, val) gomap" where
  "entries h m = (case m of None \<Rightarrow> [] | Some a \<Rightarrow> h ! a)"

text \<open>
  The result is the returned map (\<open>None\<close> for nil) and the store after the call:
  \<open>make\<close> allocates the cell \<open>length h\<close>, the loop writes the entries into it.
\<close>

definition FlagMetadata :: "'svc Client \<Rightarrow> mapstore \<Rightarrow> string \<Rightarrow> addr option \<times> mapstore" where
  "FlagMetadata c h flagKey =
     (case GetFlagConfig c flagKey of
        None \<Rightarrow> (None, h)
      | Some f \<Rightarrow>
          (let metadata = length h;
               h1 = h @ [[]]
           in (Some metadata,
               fold (\<lambda>(k, v) h'. h'[metadata := AList.update k v (h' ! metadata)])
                    (entries h1 (Metadata f)) h1)))"

subsection \<open>A scenario to run the client on\<close>

text \<open>
  Modelled from the spec: \<open>topologicalSort\<close>, declared outside the two files. The
  design asks for ``a topological ordering of the requested flags over the snapshot's
  declared dependency edges --- a flag must be evaluated only after all flags it depends
  on; a dependency cycle, or a dependency on a flag key absent from the snapshot, is a
  fatal ordering error''. \<open>visit\<close> places the dependencies of a flag before the flag;
  \<open>path\<close> holds the keys being visited, so meeting one of them again is a cycle. The
  first argument bounds the depth of the descent; a path never repeats a key, so one more
  than the number of flags is never used up. A requested key that the snapshot does not
  hold is passed over (the design names only missing dependencies as errors). The
  theorems below hold for every ordering function; this one serves to run them on the
  design's own example: \<open>checkout-button\<close> depends on \<open>holdout\<close>.
\<close>

fun visit :: "nat \<Rightarrow> (string \<rightharpoonup> flag) \<Rightarrow> string list \<Rightarrow> string \<Rightarrow> flag list \<Rightarrow> string + flag list"
and visit_all :: "nat \<Rightarrow> (string \<rightharpoonup> flag) \<Rightarrow> string list \<Rightarrow> string list \<Rightarrow> flag list \<Rightarrow> string + flag list" where
  "visit 0 snap path k placed = Inl ''dependency cycle''"
| "visit (Suc n) snap path k placed =
     (if k \<in> set path then Inl ''dependency cycle''
      else (case snap k of
              None \<Rightarrow> Inl ''missing dependency''
            | Some f \<Rightarrow>
                if f \<in> set placed then Inr placed
                else (case visit_all n snap (k # path) (Dependencies f) placed of
                        Inl e \<Rightarrow> Inl e
                      | Inr placed' \<Rightarrow> Inr (placed' @ [f]))))"
| "visit_all n snap path [] placed = Inr placed"
| "visit_all n snap path (d # ds) placed =
     (case visit n snap path d placed of
        Inl e \<Rightarrow> Inl e
      | Inr placed' \<Rightarrow> visit_all n snap path ds placed')"

fun order_requested :: "nat \<Rightarrow> (string \<rightharpoonup> flag) \<Rightarrow> string list \<Rightarrow> flag list \<Rightarrow> string + flag list" where
  "order_requested n snap [] placed = Inr placed"
| "order_requested n snap (k # ks) placed =
     (case snap k of
        None \<Rightarrow> order_requested n snap ks placed
      | Some f \<Rightarrow>
          (case visit n snap [] k placed of
             Inl e \<Rightarrow> Inl e
           | Inr placed' \<Rightarrow> order_requested n snap ks placed'))"

definition topologicalSort_spec :: "(string, flag) gomap \<Rightarrow> string list \<Rightarrow> string + flag list" where
  "topologicalSort_spec flags flagKeys =
     order_requested (Suc (length flags)) (map_of flags) flagKeys []"

definition checkout_button :: flag where
  "checkout_button = \<lparr>Key = ''checkout-button'', Dependencies = [''holdout''], Metadata = None\<rparr>"

definition holdout :: flag where
  "holdout = \<lparr>Key = ''holdout'', Dependencies = [], Metadata = Some 0\<rparr>"

definition scenario :: "(unit, nat) collab" where
  "scenario =
     \<lparr>userGroupType = ''User'',
      getGroupedCohortIDsFromFlags = (\<lambda>fs. [''User'' \<mapsto> {''cohort1''}, ''org'' \<mapsto> {''cohort2''}]),
      GetCohortsForUser = (\<lambda>uid ids. ids),
      GetCohortsForGroup = (\<lambda>gt gn ids. ids),
      UserToContext = (\<lambda>u. ()),
      topologicalSort = topologicalSort_spec,
      engine_Evaluate = (\<lambda>ctx fs. map (\<lambda>f. (Key f,
          \<lparr>r_Key = ''on'', r_Value = VStr ''on'', r_Payload = VNil,
           r_Metadata = (if Key f = ''holdout'' then [''default'' \<mapsto> VBool True] else Map.empty)\<rparr>)) fs),
      json_Marshal = (\<lambda>v. Inl ''unsupported''),
      fmt_Sprint = (\<lambda>v. case v of VStr s \<Rightarrow> s | _ \<Rightarrow> []),
      Track = (\<lambda>n u vs. Suc n)\<rparr>"

definition alice :: user where
  "alice = \<lparr>UserId = ''alice'', DeviceId = ''phone'',
            Groups = [(''org'', [''acme'', ''other'']), (''team'', [])],
            CohortIds = {}, GroupCohortIds = Map.empty\<rparr>"

lemma topologicalSort_spec_orders:
  "topologicalSort_spec [(''checkout-button'', checkout_button), (''holdout'', holdout)]
     [''checkout-button'', ''holdout''] = Inr [holdout, checkout_button]"
  by (simp add: topologicalSort_spec_def checkout_button_def holdout_def)

lemma topologicalSort_spec_cycle:
  "topologicalSort_spec
     [(''a'', \<lparr>Key = ''a'', Dependencies = [''b''], Metadata = None\<rparr>),
      (''b'', \<lparr>Key = ''b'', Dependencies = [''a''], Metadata = None\<rparr>)] [''a'']
   = Inl ''dependency cycle''"
  by (simp add: topologicalSort_spec_def)

subsection \<open>enrichUser\<close>

lemma fold_enrichGroup_fields:
  "UserId (fold (enrichGroup P g) gs u0) = UserId u0
   \<and> DeviceId (fold (enrichGroup P g) gs u0) = DeviceId u0
   \<and> Groups (fold (enrichGroup P g) gs u0) = Groups u0
   \<and> CohortIds (fold (enrichGroup P g) gs u0) = CohortIds u0"
  by (induction gs arbitrary: u0)
     (auto simp: enrichGroup_def AddGroupCohortIDs_def Let_def split: option.splits list.splits)

lemma fold_enrichGroup_cohorts:
  "GroupCohortIds (fold (enrichGroup P g) gs u0) (gt, gn) =
     (if gn \<noteq> [] \<and> (\<exists>rest. (gt, gn # rest) \<in> set gs)
      then (case g gt of
              Some ids \<Rightarrow> Some (GetCohortsForGroup P gt gn ids)
            | None \<Rightarrow> GroupCohortIds u0 (gt, gn))
      else GroupCohortIds u0 (gt, gn))"
proof (induction gs arbitrary: u0)
  case Nil
  show ?case by simp
next
  case (Cons x gs)
  have head: "GroupCohortIds (enrichGroup P g x u0) (gt, gn) =
     (if gn \<noteq> [] \<and> (\<exists>rest. x = (gt, gn # rest))
      then (case g gt of
              Some ids \<Rightarrow> Some (GetCohortsForGroup P gt gn ids)
            | None \<Rightarrow> GroupCohortIds u0 (gt, gn))
      else GroupCohortIds u0 (gt, gn))"
    by (cases x) (auto simp: enrichGroup_def AddGroupCohortIDs_def Let_def
                       split: option.splits list.splits)
  have "GroupCohortIds (fold (enrichGroup P g) (x # gs) u0) (gt, gn)
        = GroupCohortIds (fold (enrichGroup P g) gs (enrichGroup P g x u0)) (gt, gn)"
    by simp
  also have "\<dots> =
     (if gn \<noteq> [] \<and> (\<exists>rest. (gt, gn # rest) \<in> set gs)
      then (case g gt of
              Some ids \<Rightarrow> Some (GetCohortsForGroup P gt gn ids)
            | None \<Rightarrow> GroupCohortIds (enrichGroup P g x u0) (gt, gn))
      else GroupCohortIds (enrichGroup P g x u0) (gt, gn))"
    by (rule Cons.IH)
  finally show ?case unfolding head by (auto split: option.splits)
qed

text \<open>
  C7. \<open>enrichUser\<close> returns the user it was given, changed as follows and in nothing
  else. The user-level cohort ids are replaced by what the cohort storage answers exactly
  when the flags reference a non-empty set of cohorts for the user group type and the
  user id is not empty; otherwise they stay. The group-level cohort ids under
  (group type, name) are replaced exactly when the name is not empty, it is the first
  name that the user's \<open>Groups\<close> lists for that type, and the flags reference cohorts for
  that type; no other name of the list, and no type whose list is empty or starts with
  the empty name, gets an entry.
\<close>

theorem enrichUser_cohorts:
  "\<exists>u'. enrichUser P u flagConfigs = (u', None)
      \<and> UserId u' = UserId u \<and> DeviceId u' = DeviceId u \<and> Groups u' = Groups u
      \<and> CohortIds u' =
          (case getGroupedCohortIDsFromFlags P (map snd flagConfigs) (userGroupType P) of
             Some ids \<Rightarrow> if ids \<noteq> {} \<and> UserId u \<noteq> []
                         then GetCohortsForUser P (UserId u) ids else CohortIds u
           | None \<Rightarrow> CohortIds u)
      \<and> (\<forall>gt gn. GroupCohortIds u' (gt, gn) =
            (if gn \<noteq> [] \<and> (\<exists>rest. (gt, gn # rest) \<in> set (Groups u))
             then (case getGroupedCohortIDsFromFlags P (map snd flagConfigs) gt of
                     Some ids \<Rightarrow> Some (GetCohortsForGroup P gt gn ids)
                   | None \<Rightarrow> GroupCohortIds u (gt, gn))
             else GroupCohortIds u (gt, gn)))"
  by (auto simp: enrichUser_def Let_def fold_enrichGroup_fields fold_enrichGroup_cohorts
           split: option.splits)

theorem enrichUser_cohorts_witness:
  "\<exists>u'. enrichUser scenario alice [(''holdout'', holdout)] = (u', None)
      \<and> CohortIds u' = {''cohort1''}
      \<and> GroupCohortIds u' (''org'', ''acme'') = Some {''cohort2''}
      \<and> GroupCohortIds u' (''org'', ''other'') = None
      \<and> GroupCohortIds u' (''team'', []) = None"
proof -
  from enrichUser_cohorts [of scenario alice "[(''holdout'', holdout)]"]
  obtain u' where u: "enrichUser scenario alice [(''holdout'', holdout)] = (u', None)"
    "CohortIds u' =
          (case getGroupedCohortIDsFromFlags scenario (map snd [(''holdout'', holdout)]) (userGroupType scenario) of
             Some ids \<Rightarrow> if ids \<noteq> {} \<and> UserId alice \<noteq> []
                         then GetCohortsForUser scenario (UserId alice) ids else CohortIds alice
           | None \<Rightarrow> CohortIds alice)"
    "\<forall>gt gn. GroupCohortIds u' (gt, gn) =
            (if gn \<noteq> [] \<and> (\<exists>rest. (gt, gn # rest) \<in> set (Groups alice))
             then (case getGroupedCohortIDsFromFlags scenario (map snd [(''holdout'', holdout)]) gt of
                     Some ids \<Rightarrow> Some (GetCohortsForGroup scenario gt gn ids)
                   | None \<Rightarrow> GroupCohortIds alice (gt, gn))
             else GroupCohortIds alice (gt, gn))"
    by blast
  from u(2) have "CohortIds u' = {''cohort1''}" by (simp add: scenario_def alice_def)
  moreover from u(3) have "GroupCohortIds u' (''org'', ''acme'') = Some {''cohort2''}"
    "GroupCohortIds u' (''org'', ''other'') = None" "GroupCohortIds u' (''team'', []) = None"
    by (simp_all add: scenario_def alice_def)
  ultimately show ?thesis using u(1) by blast
qed

subsection \<open>EvaluateV2 and Evaluate\<close>

text \<open>
  C4. Whatever the ordering function is, when it fails on the snapshot and the requested
  keys, \<open>EvaluateV2\<close> returns that error and no variants, and the client --- the
  flag-config snapshot and the assignment service --- is as before the call. (The user
  has been enriched by then.)
\<close>

theorem EvaluateV2_ordering_error:
  assumes "topologicalSort P (flagConfigStorage c) flagKeys = Inl e"
  shows "EvaluateV2 P c u flagKeys = (Inl e, fst (enrichUser P u (flagConfigStorage c)), c)"
  using assms by (simp add: EvaluateV2_def enrichUser_def Let_def)

theorem EvaluateV2_ordering_error_witness:
  "topologicalSort scenario [(''checkout-button'', checkout_button)] [''checkout-button'', ''holdout'']
      = Inl ''missing dependency''
   \<and> fst (EvaluateV2 scenario
        \<lparr>flagConfigStorage = [(''checkout-button'', checkout_button)], assignmentService = Some 0\<rparr>
        alice [''checkout-button'', ''holdout'']) = Inl ''missing dependency''
   \<and> snd (snd (EvaluateV2 scenario
        \<lparr>flagConfigStorage = [(''checkout-button'', checkout_button)], assignmentService = Some 0\<rparr>
        alice [''checkout-button'', ''holdout'']))
      = \<lparr>flagConfigStorage = [(''checkout-button'', checkout_button)], assignmentService = Some 0\<rparr>"
proof -
  let ?c = "\<lparr>flagConfigStorage = [(''checkout-button'', checkout_button)], assignmentService = Some (0::nat)\<rparr>"
  have h: "topologicalSort scenario (flagConfigStorage ?c) [''checkout-button'', ''holdout'']
             = Inl ''missing dependency''"
    by (simp add: scenario_def topologicalSort_spec_def checkout_button_def)
  from EvaluateV2_ordering_error [OF h, of alice] h show ?thesis by simp
qed

lemma fold_toVariant_distinct:
  "distinct (map fst acc) \<Longrightarrow>
   distinct (map fst (fold (\<lambda>(key, result) vs. AList.update key (f result) vs) rs acc))"
  by (induction rs arbitrary: acc) (auto simp: distinct_update)

lemma EvaluateV2_distinct:
  "EvaluateV2 P c u ks = (Inr variants, u', c') \<Longrightarrow> distinct (map fst variants)"
  by (auto simp: EvaluateV2_def enrichUser_def Let_def fold_toVariant_distinct
           split: sum.splits option.splits)

lemma fold_keep_distinct:
  "distinct (map fst acc) \<Longrightarrow>
   distinct (map fst (fold (\<lambda>(key, v) results. if keep v then AList.update key v results else results) vs acc))"
  by (induction vs arbitrary: acc) (auto simp: distinct_update)

lemma fold_keep_map_of:
  "distinct (map fst vs) \<Longrightarrow>
   map_of (fold (\<lambda>(key, v) results. if keep v then AList.update key v results else results) vs acc) k =
     (case map_of vs k of
        Some v \<Rightarrow> if keep v then Some v else map_of acc k
      | None \<Rightarrow> map_of acc k)"
proof (induction vs arbitrary: acc)
  case Nil
  show ?case by simp
next
  case (Cons x vs)
  obtain key v where x: "x = (key, v)" by (cases x)
  from Cons.prems x have d: "distinct (map fst vs)" and nk: "map_of vs key = None"
    by (auto simp: map_of_eq_None_iff)
  show ?case using nk
    by (auto simp: x Cons.IH [OF d] update_conv' split: option.splits)
qed

lemma keep_iff:
  "(\<not> isDefault v \<and> isDeployed v) =
   (v_Metadata v ''default'' \<noteq> Some (VBool True) \<and> v_Metadata v ''deployed'' \<noteq> Some (VBool False))"
  by (auto simp: isDefault_def isDeployed_def split: option.splits val.splits)

text \<open>
  C9. When \<open>EvaluateV2\<close> returns variants, \<open>Evaluate\<close> returns, with the same user and
  client, the map that holds under each key the variant of \<open>EvaluateV2\<close> when its
  metadata has neither \<open>default\<close> = boolean true nor \<open>deployed\<close> = boolean false, and
  nothing otherwise. When \<open>EvaluateV2\<close> returns an error, \<open>Evaluate\<close> returns the
  same error and no variants.
\<close>

theorem Evaluate_filters_EvaluateV2:
  "(\<forall>variants u' c'. EvaluateV2 P c u ks = (Inr variants, u', c') \<longrightarrow>
      (\<exists>results. Evaluate P c u ks = (Inr results, u', c')
         \<and> distinct (map fst results)
         \<and> (\<forall>k. map_of results k =
               (case map_of variants k of
                  Some v \<Rightarrow> if v_Metadata v ''default'' \<noteq> Some (VBool True)
                                 \<and> v_Metadata v ''deployed'' \<noteq> Some (VBool False)
                              then Some v else None
                | None \<Rightarrow> None))))
   \<and> (\<forall>err u' c'. EvaluateV2 P c u ks = (Inl err, u', c') \<longrightarrow>
         Evaluate P c u ks = (Inl err, u', c'))"
proof (intro conjI allI impI)
  fix variants u' c'
  assume e: "EvaluateV2 P c u ks = (Inr variants, u', c')"
  then have d: "distinct (map fst variants)" by (rule EvaluateV2_distinct)
  let ?results = "fold (\<lambda>(key, v) results.
                        if \<not> isDefault v \<and> isDeployed v then AList.update key v results
                        else results) variants []"
  have "Evaluate P c u ks = (Inr ?results, u', c')" using e by (simp add: Evaluate_def)
  moreover have "distinct (map fst ?results)" by (rule fold_keep_distinct) simp
  moreover have "map_of ?results k =
               (case map_of variants k of
                  Some v \<Rightarrow> if v_Metadata v ''default'' \<noteq> Some (VBool True)
                                 \<and> v_Metadata v ''deployed'' \<noteq> Some (VBool False)
                              then Some v else None
                | None \<Rightarrow> None)" for k
    by (simp add: fold_keep_map_of [OF d] keep_iff split: option.splits)
  ultimately show "\<exists>results. Evaluate P c u ks = (Inr results, u', c')
         \<and> distinct (map fst results)
         \<and> (\<forall>k. map_of results k =
               (case map_of variants k of
                  Some v \<Rightarrow> if v_Metadata v ''default'' \<noteq> Some (VBool True)
                                 \<and> v_Metadata v ''deployed'' \<noteq> Some (VBool False)
                              then Some v else None
                | None \<Rightarrow> None))"
    by blast
next
  fix err u' c'
  assume "EvaluateV2 P c u ks = (Inl err, u', c')"
  then show "Evaluate P c u ks = (Inl err, u', c')" by (simp add: Evaluate_def)
qed

theorem Evaluate_filters_EvaluateV2_witness:
  "\<exists>variants u' c'.
      EvaluateV2 scenario
        \<lparr>flagConfigStorage = [(''checkout-button'', checkout_button), (''holdout'', holdout)],
         assignmentService = Some 0\<rparr>
        alice [''checkout-button'', ''holdout''] = (Inr variants, u', c')
    \<and> map_of variants ''holdout'' \<noteq> None
    \<and> (\<exists>results.
          Evaluate scenario
            \<lparr>flagConfigStorage = [(''checkout-button'', checkout_button), (''holdout'', holdout)],
             assignmentService = Some 0\<rparr>
            alice [''checkout-button'', ''holdout''] = (Inr results, u', c')
        \<and> map_of results ''holdout'' = None
        \<and> map_of results ''checkout-button'' = map_of variants ''checkout-button''
        \<and> map_of results ''checkout-button'' \<noteq> None)"
proof -
  let ?c = "\<lparr>flagConfigStorage = [(''checkout-button'', checkout_button), (''holdout'', holdout)],
             assignmentService = Some (0::nat)\<rparr>"
  let ?ks = "[''checkout-button'', ''holdout'']"
  obtain variants u' c' where e: "EvaluateV2 scenario ?c alice ?ks = (Inr variants, u', c')"
    and v: "map_of variants ''holdout'' = Some \<lparr>v_Key = ''on'', v_Value = ''on'', v_Payload = VNil,
                v_Metadata = [''default'' \<mapsto> VBool True]\<rparr>"
      "map_of variants ''checkout-button'' = Some \<lparr>v_Key = ''on'', v_Value = ''on'', v_Payload = VNil,
                v_Metadata = Map.empty\<rparr>"
    by (simp add: EvaluateV2_def enrichUser_def scenario_def topologicalSort_spec_def
        checkout_button_def holdout_def toVariant_def coerceString_def Let_def)
  from Evaluate_filters_EvaluateV2 [of scenario ?c alice ?ks] e
  obtain results where r: "Evaluate scenario ?c alice ?ks = (Inr results, u', c')"
    "\<forall>k. map_of results k =
               (case map_of variants k of
                  Some v \<Rightarrow> if v_Metadata v ''default'' \<noteq> Some (VBool True)
                                 \<and> v_Metadata v ''deployed'' \<noteq> Some (VBool False)
                              then Some v else None
                | None \<Rightarrow> None)"
    by blast
  from r(2) v have "map_of results ''holdout'' = None"
    "map_of results ''checkout-button'' = map_of variants ''checkout-button''"
    "map_of results ''checkout-button'' \<noteq> None"
    by simp_all
  with r(1) have inner: "\<exists>results. Evaluate scenario ?c alice ?ks = (Inr results, u', c')
        \<and> map_of results ''holdout'' = None
        \<and> map_of results ''checkout-button'' = map_of variants ''checkout-button''
        \<and> map_of results ''checkout-button'' \<noteq> None"
    by blast
  from v(1) have "map_of variants ''holdout'' \<noteq> None" by simp
  with e inner show ?thesis by blast
qed

subsection \<open>FlagMetadata returns a copy\<close>

lemma update_fresh: "k \<notin> fst ` set al \<Longrightarrow> AList.update k v al = al @ [(k, v)]"
  by (induction al) auto

lemma fold_update_distinct:
  "distinct (map fst (acc @ es)) \<Longrightarrow> fold (\<lambda>(k, v). AList.update k v) es acc = acc @ es"
proof (induction es arbitrary: acc)
  case Nil
  show ?case by simp
next
  case (Cons x es)
  obtain k v where x: "x = (k, v)" by (cases x)
  from Cons.prems x have "k \<notin> fst ` set acc" by auto
  then have "AList.update k v acc = acc @ [(k, v)]" by (rule update_fresh)
  moreover from Cons.prems x have "distinct (map fst ((acc @ [(k, v)]) @ es))" by simp
  ultimately show ?case using Cons.IH [of "acc @ [(k, v)]"] x by simp
qed

lemma fold_cell:
  "n < length h1 \<Longrightarrow>
   fold (\<lambda>(k, v) h'. h'[n := AList.update k v (h' ! n)]) es h1
     = h1[n := fold (\<lambda>(k, v). AList.update k v) es (h1 ! n)]"
proof (induction es arbitrary: h1)
  case Nil
  then show ?case by simp
next
  case (Cons x es)
  obtain k v where x: "x = (k, v)" by (cases x)
  from Cons.prems have "n < length (h1[n := AList.update k v (h1 ! n)])" by simp
  from Cons.IH [OF this] Cons.prems show ?case by (simp add: x)
qed

text \<open>
  C10. \<open>FlagMetadata\<close> returns nil, and leaves the store as it is, when the storage has
  no flag under the key. Otherwise (the flag's metadata being nil or a map of the store)
  it returns a map at an address that did not exist before, whose entries are those of
  the flag's metadata; every cell that existed before is the same after the call, and
  writing anything to the returned map leaves the entries of the flag's metadata as they
  were.
\<close>

theorem FlagMetadata_copy:
  "(GetFlagConfig c flagKey = None \<longrightarrow> FlagMetadata c h flagKey = (None, h))
   \<and> (\<forall>f. GetFlagConfig c flagKey = Some f
           \<and> (\<forall>a. Metadata f = Some a \<longrightarrow> a < length h)
           \<and> distinct (map fst (entries h (Metadata f))) \<longrightarrow>
        (\<exists>h'. FlagMetadata c h flagKey = (Some (length h), h')
           \<and> length h' = Suc (length h)
           \<and> h' ! length h = entries h (Metadata f)
           \<and> Metadata f \<noteq> Some (length h)
           \<and> (\<forall>a < length h. h' ! a = h ! a)
           \<and> (\<forall>m. entries (h'[length h := m]) (Metadata f) = entries h (Metadata f))))"
proof (intro conjI allI impI)
  assume "GetFlagConfig c flagKey = None"
  then show "FlagMetadata c h flagKey = (None, h)" by (simp add: FlagMetadata_def)
next
  fix f
  assume a: "GetFlagConfig c flagKey = Some f
           \<and> (\<forall>a. Metadata f = Some a \<longrightarrow> a < length h)
           \<and> distinct (map fst (entries h (Metadata f)))"
  let ?es = "entries h (Metadata f)"
  let ?h1 = "h @ [[]]"
  from a have same: "entries ?h1 (Metadata f) = ?es"
    by (auto simp: entries_def nth_append split: option.splits)
  have cell: "fold (\<lambda>(k, v) h'. h'[length h := AList.update k v (h' ! length h)]) ?es ?h1
              = ?h1[length h := fold (\<lambda>(k, v). AList.update k v) ?es (?h1 ! length h)]"
    by (rule fold_cell) simp
  have "fold (\<lambda>(k, v). AList.update k v) ?es [] = [] @ ?es"
    using a by (intro fold_update_distinct) simp
  with cell have res: "fold (\<lambda>(k, v) h'. h'[length h := AList.update k v (h' ! length h)]) ?es ?h1
              = h @ [?es]"
    by simp
  have run: "FlagMetadata c h flagKey = (Some (length h), h @ [?es])"
    using a same res by (simp add: FlagMetadata_def Let_def)
  have "entries ((h @ [?es])[length h := m]) (Metadata f) = ?es" for m
    using a by (auto simp: entries_def nth_append split: option.splits)
  moreover have "Metadata f \<noteq> Some (length h)" using a by auto
  ultimately show "\<exists>h'. FlagMetadata c h flagKey = (Some (length h), h')
           \<and> length h' = Suc (length h)
           \<and> h' ! length h = entries h (Metadata f)
           \<and> Metadata f \<noteq> Some (length h)
           \<and> (\<forall>a < length h. h' ! a = h ! a)
           \<and> (\<forall>m. entries (h'[length h := m]) (Metadata f) = entries h (Metadata f))"
    using run by (intro exI [of _ "h @ [?es]"]) (simp add: nth_append)
qed

theorem FlagMetadata_copy_witness:
  "GetFlagConfig \<lparr>flagConfigStorage = [(''holdout'', holdout)], assignmentService = None :: nat option\<rparr> ''holdout''
     = Some holdout
   \<and> FlagMetadata \<lparr>flagConfigStorage = [(''holdout'', holdout)], assignmentService = None :: nat option\<rparr>
        [[(''deployed'', VBool True)]] ''holdout''
     = (Some 1, [[(''deployed'', VBool True)], [(''deployed'', VBool True)]])
   \<and> FlagMetadata \<lparr>flagConfigStorage = [(''holdout'', holdout)], assignmentService = None :: nat option\<rparr>
        [[(''deployed'', VBool True)]] ''absent'' = (None, [[(''deployed'', VBool True)]])"
proof -
  let ?c = "\<lparr>flagConfigStorage = [(''holdout'', holdout)], assignmentService = None :: nat option\<rparr>"
  let ?h = "[[(''deployed'', VBool True)]]"
  have g: "GetFlagConfig ?c ''holdout'' = Some holdout" by (simp add: GetFlagConfig_def)
  have n: "GetFlagConfig ?c ''absent'' = None" by (simp add: GetFlagConfig_def)
  have wf: "\<forall>a. Metadata holdout = Some a \<longrightarrow> a < length ?h" by (simp add: holdout_def)
  have d: "distinct (map fst (entries ?h (Metadata holdout)))"
    by (simp add: holdout_def entries_def)
  from FlagMetadata_copy [of ?c "''holdout''" ?h] g wf d
  obtain h' where h': "FlagMetadata ?c ?h ''holdout'' = (Some (length ?h), h')"
    "length h' = Suc (length ?h)" "h' ! length ?h = entries ?h (Metadata holdout)"
    "\<forall>a < length ?h. h' ! a = ?h ! a"
    by blast
  from h'(2,3,4) have "h' = [[(''deployed'', VBool True)], [(''deployed'', VBool True)]]"
    by (auto simp: holdout_def entries_def list_eq_iff_nth_eq less_Suc_eq)
  moreover from FlagMetadata_copy [of ?c "''absent''" ?h] n
  have "FlagMetadata ?c ?h ''absent'' = (None, ?h)" by blast
  ultimately show ?thesis using g h'(1) by simp
qed

section \<open>The assignment service (first part of assignment\_service.go)\<close>

subsection \<open>Data\<close>

text \<open>
  \<open>Assignment\<close>, the type of its results and \<open>amplitude.Event\<close> are declared outside
  the two files; the fields that \<open>toEvent\<close> reads and writes are kept.
  \<open>result.Variant.Key\<close> is \<open>Variant_Key\<close>. The timestamp is taken to be an \<open>int64\<close>
  of milliseconds. \<open>assignment.results\<close> is a pointer to a map, taken to be valid.
  The values of the event maps are the strings that the code stores.
\<close>

record result =
  Variant_Key :: string
  Type :: string
  IsDefaultVariant :: bool

record Assignment =
  a_user :: user
  a_results :: "(string, result) gomap"
  a_timestamp :: "64 word"

record Event =
  EventType :: string
  UserID :: string
  DeviceID :: string
  EventProperties :: "string \<rightharpoonup> string"
  UserProperties :: "string \<rightharpoonup> (string \<rightharpoonup> string)"
  InsertID :: string

definition DayMillis :: int where
  "DayMillis = 24 * 60 * 60 * 1000"

subsection \<open>Formatting with \%d\<close>

fun digits :: "nat \<Rightarrow> string" where
  "digits n = (if n < 10 then [''0123456789'' ! n]
               else digits (n div 10) @ [''0123456789'' ! (n mod 10)])"

declare digits.simps [simp del]

definition Sprint_d :: "int \<Rightarrow> string" where
  "Sprint_d i = (if i < 0 then CHR ''-'' # digits (nat (- i)) else digits (nat i))"

subsection \<open>toEvent\<close>

text \<open>The bodies of the two loops over \<open>*assignment.results\<close>.\<close>

definition setEventProperty :: "string \<times> result \<Rightarrow> (string \<rightharpoonup> string) \<Rightarrow> (string \<rightharpoonup> string)" where
  "setEventProperty kr eventProperties =
     eventProperties(fst kr @ ''.variant'' \<mapsto> Variant_Key (snd kr))"

definition setUserProperty ::
  "string \<times> result \<Rightarrow> (string \<rightharpoonup> string) \<times> (string \<rightharpoonup> string)
     \<Rightarrow> (string \<rightharpoonup> string) \<times> (string \<rightharpoonup> string)" where
  "setUserProperty kr su =
     (let FlagTypeMutualExclusionGroup = ''mutual-exclusion-group'';
          resultsKey = fst kr; r = snd kr; set_m = fst su; unset_m = snd su
      in if Type r = FlagTypeMutualExclusionGroup then (set_m, unset_m)
         else if IsDefaultVariant r
              then (set_m, unset_m(''[Experiment] '' @ resultsKey \<mapsto> ''-''))
              else (set_m(''[Experiment] '' @ resultsKey \<mapsto> Variant_Key r), unset_m))"

text \<open>
  \<open>Assignment.Canonicalize\<close> and \<open>hashCode\<close> are defined outside the two files: they
  are the parameters \<open>canonicalize\<close> and \<open>hashCode\<close>. Go's \<open>/\<close> on integers truncates
  towards zero: \<open>sdiv\<close>.
\<close>

definition toEvent :: "(Assignment \<Rightarrow> string) \<Rightarrow> (string \<Rightarrow> int) \<Rightarrow> Assignment \<Rightarrow> Event" where
  "toEvent canonicalize hashCode assignment =
     (let eventProperties = fold setEventProperty (a_results assignment) Map.empty;
          su = fold setUserProperty (a_results assignment) (Map.empty, Map.empty)
      in \<lparr>EventType = ''[Experiment] Assignment'',
          UserID = UserId (a_user assignment),
          DeviceID = DeviceId (a_user assignment),
          EventProperties = eventProperties,
          UserProperties = [''$set'' \<mapsto> fst su, ''$unset'' \<mapsto> snd su],
          InsertID = UserId (a_user assignment) @ '' '' @ DeviceId (a_user assignment) @ '' ''
                     @ Sprint_d (hashCode (canonicalize assignment)) @ '' ''
                     @ Sprint_d (sint (a_timestamp assignment) sdiv DayMillis)\<rparr>)"

subsection \<open>Properties of toEvent\<close>

lemma fold_setEventProperty_other:
  "k \<notin> fst ` set rs \<Longrightarrow>
   fold setEventProperty rs m (k @ ''.variant'') = m (k @ ''.variant'')"
  by (induction rs arbitrary: m) (auto simp: setEventProperty_def)

lemma fold_setEventProperty_entry:
  "distinct (map fst rs) \<Longrightarrow> (k, r) \<in> set rs \<Longrightarrow>
   fold setEventProperty rs m (k @ ''.variant'') = Some (Variant_Key r)"
proof (induction rs arbitrary: m)
  case Nil
  then show ?case by simp
next
  case (Cons x rs)
  show ?case
  proof (cases "x = (k, r)")
    case True
    with Cons.prems have "k \<notin> fst ` set rs" by auto
    then have "fold setEventProperty rs (setEventProperty x m) (k @ ''.variant'')
                 = setEventProperty x m (k @ ''.variant'')"
      by (rule fold_setEventProperty_other)
    also have "\<dots> = Some (Variant_Key r)"
      using True by (simp add: setEventProperty_def)
    finally show ?thesis by simp
  next
    case False
    with Cons.prems have "distinct (map fst rs)" "(k, r) \<in> set rs" by auto
    then show ?thesis by (simp add: Cons.IH)
  qed
qed

lemma fold_setUserProperty_other:
  "k \<notin> fst ` set rs \<Longrightarrow>
   fst (fold setUserProperty rs su) (''[Experiment] '' @ k) = fst su (''[Experiment] '' @ k)
   \<and> snd (fold setUserProperty rs su) (''[Experiment] '' @ k) = snd su (''[Experiment] '' @ k)"
proof (induction rs arbitrary: su)
  case Nil
  show ?case by simp
next
  case (Cons x rs)
  from Cons.prems have k: "k \<notin> fst ` set rs" "fst x \<noteq> k" by auto
  have "fst (setUserProperty x su) (''[Experiment] '' @ k) = fst su (''[Experiment] '' @ k)
      \<and> snd (setUserProperty x su) (''[Experiment] '' @ k) = snd su (''[Experiment] '' @ k)"
    using k(2) by (simp add: setUserProperty_def Let_def)
  with Cons.IH [OF k(1), of "setUserProperty x su"] show ?case by simp
qed

lemma fold_setUserProperty_entry:
  assumes "distinct (map fst rs)" "(k, r) \<in> set rs"
  shows "fst (fold setUserProperty rs su) (''[Experiment] '' @ k) =
           (if Type r \<noteq> ''mutual-exclusion-group'' \<and> \<not> IsDefaultVariant r
            then Some (Variant_Key r) else fst su (''[Experiment] '' @ k))
       \<and> snd (fold setUserProperty rs su) (''[Experiment] '' @ k) =
           (if Type r \<noteq> ''mutual-exclusion-group'' \<and> IsDefaultVariant r
            then Some ''-'' else snd su (''[Experiment] '' @ k))"
  using assms
proof (induction rs arbitrary: su)
  case Nil
  then show ?case by simp
next
  case (Cons x rs)
  show ?case
  proof (cases "x = (k, r)")
    case True
    with Cons.prems have "k \<notin> fst ` set rs" by auto
    from fold_setUserProperty_other [OF this, of "setUserProperty x su"]
    have rest: "fst (fold setUserProperty rs (setUserProperty x su)) (''[Experiment] '' @ k)
                  = fst (setUserProperty x su) (''[Experiment] '' @ k)"
      "snd (fold setUserProperty rs (setUserProperty x su)) (''[Experiment] '' @ k)
                  = snd (setUserProperty x su) (''[Experiment] '' @ k)"
      by simp_all
    have head: "fst (setUserProperty x su) (''[Experiment] '' @ k) =
           (if Type r \<noteq> ''mutual-exclusion-group'' \<and> \<not> IsDefaultVariant r
            then Some (Variant_Key r) else fst su (''[Experiment] '' @ k))"
      "snd (setUserProperty x su) (''[Experiment] '' @ k) =
           (if Type r \<noteq> ''mutual-exclusion-group'' \<and> IsDefaultVariant r
            then Some ''-'' else snd su (''[Experiment] '' @ k))"
      using True by (simp_all add: setUserProperty_def Let_def)
    have "fold setUserProperty (x # rs) su = fold setUserProperty rs (setUserProperty x su)"
      by simp
    then show ?thesis by (simp only: rest head)
  next
    case False
    with Cons.prems have d: "distinct (map fst rs)" "(k, r) \<in> set rs" by auto
    with Cons.prems have "fst x \<noteq> k" by (auto simp: image_iff)
    then have "fst (setUserProperty x su) (''[Experiment] '' @ k) = fst su (''[Experiment] '' @ k)
      \<and> snd (setUserProperty x su) (''[Experiment] '' @ k) = snd su (''[Experiment] '' @ k)"
      by (simp add: setUserProperty_def Let_def)
    with Cons.IH [OF d, of "setUserProperty x su"] show ?thesis by simp
  qed
qed

lemma fold_setUserProperty_dom:
  "p \<in> dom (fst (fold setUserProperty rs su)) \<union> dom (snd (fold setUserProperty rs su)) \<Longrightarrow>
   p \<in> dom (fst su) \<union> dom (snd su)
   \<or> (\<exists>k r. (k, r) \<in> set rs \<and> Type r \<noteq> ''mutual-exclusion-group'' \<and> p = ''[Experiment] '' @ k)"
proof (induction rs arbitrary: su)
  case Nil
  then show ?case by simp
next
  case (Cons x rs)
  from Cons.prems have "p \<in> dom (fst (fold setUserProperty rs (setUserProperty x su)))
      \<union> dom (snd (fold setUserProperty rs (setUserProperty x su)))" by simp
  from Cons.IH [OF this] show ?case
  proof
    assume "p \<in> dom (fst (setUserProperty x su)) \<union> dom (snd (setUserProperty x su))"
    then have "p \<in> dom (fst su) \<union> dom (snd su)
       \<or> (Type (snd x) \<noteq> ''mutual-exclusion-group'' \<and> p = ''[Experiment] '' @ fst x)"
      by (auto simp: setUserProperty_def Let_def split: if_splits)
    then show ?thesis by (cases x) auto
  next
    assume "\<exists>k r. (k, r) \<in> set rs \<and> Type r \<noteq> ''mutual-exclusion-group'' \<and> p = ''[Experiment] '' @ k"
    then show ?thesis by auto
  qed
qed

text \<open>
  C5. For an assignment whose results form a map (distinct keys): every result, of
  whatever type, has its entry \<open><flagKey>.variant\<close> in the event properties, holding
  its variant key; the event carries a \<open>$set\<close> and an \<open>$unset\<close> map; a result of type
  mutual-exclusion-group has no entry in either; and every entry of either map comes from
  a result that is not of that type.
\<close>

theorem toEvent_groups_excluded:
  assumes "distinct (map fst (a_results a))"
  shows "(\<forall>(k, r) \<in> set (a_results a).
            EventProperties (toEvent C H a) (k @ ''.variant'') = Some (Variant_Key r))
       \<and> (\<exists>s u. UserProperties (toEvent C H a) ''$set'' = Some s
              \<and> UserProperties (toEvent C H a) ''$unset'' = Some u
              \<and> (\<forall>(k, r) \<in> set (a_results a).
                    Type r = ''mutual-exclusion-group'' \<longrightarrow>
                      s (''[Experiment] '' @ k) = None \<and> u (''[Experiment] '' @ k) = None)
              \<and> (\<forall>p \<in> dom s \<union> dom u.
                    \<exists>k r. (k, r) \<in> set (a_results a)
                        \<and> Type r \<noteq> ''mutual-exclusion-group'' \<and> p = ''[Experiment] '' @ k))"
proof -
  let ?su = "fold setUserProperty (a_results a) (Map.empty, Map.empty)"
  have ep: "EventProperties (toEvent C H a) (k @ ''.variant'') = Some (Variant_Key r)"
    if "(k, r) \<in> set (a_results a)" for k r
    using assms that by (simp add: toEvent_def Let_def fold_setEventProperty_entry)
  have s: "UserProperties (toEvent C H a) ''$set'' = Some (fst ?su)"
    and u: "UserProperties (toEvent C H a) ''$unset'' = Some (snd ?su)"
    by (simp_all add: toEvent_def Let_def)
  have meg: "fst ?su (''[Experiment] '' @ k) = None \<and> snd ?su (''[Experiment] '' @ k) = None"
    if "(k, r) \<in> set (a_results a)" "Type r = ''mutual-exclusion-group''" for k r
    using fold_setUserProperty_entry [OF assms that(1), of "(Map.empty, Map.empty)"] that(2)
    by simp
  have src: "\<exists>k r. (k, r) \<in> set (a_results a)
                  \<and> Type r \<noteq> ''mutual-exclusion-group'' \<and> p = ''[Experiment] '' @ k"
    if "p \<in> dom (fst ?su) \<union> dom (snd ?su)" for p
    using fold_setUserProperty_dom [OF that] by simp
  from ep have "\<forall>(k, r) \<in> set (a_results a).
            EventProperties (toEvent C H a) (k @ ''.variant'') = Some (Variant_Key r)"
    by auto
  moreover from meg have "\<forall>(k, r) \<in> set (a_results a).
                    Type r = ''mutual-exclusion-group'' \<longrightarrow>
                      fst ?su (''[Experiment] '' @ k) = None \<and> snd ?su (''[Experiment] '' @ k) = None"
    by auto
  moreover from src have "\<forall>p \<in> dom (fst ?su) \<union> dom (snd ?su).
                    \<exists>k r. (k, r) \<in> set (a_results a)
                        \<and> Type r \<noteq> ''mutual-exclusion-group'' \<and> p = ''[Experiment] '' @ k"
    by blast
  ultimately show ?thesis using s u by blast
qed

theorem toEvent_groups_excluded_witness:
  "distinct (map fst [(''flag-a'', \<lparr>Variant_Key = ''on'', Type = ''release'', IsDefaultVariant = False\<rparr>),
                      (''group-1'', \<lparr>Variant_Key = ''slot-1'', Type = ''mutual-exclusion-group'',
                                     IsDefaultVariant = False\<rparr>)])
   \<and> EventProperties (toEvent (\<lambda>a. ''canonical'') (\<lambda>s. 42)
        \<lparr>a_user = alice,
         a_results = [(''flag-a'', \<lparr>Variant_Key = ''on'', Type = ''release'', IsDefaultVariant = False\<rparr>),
                      (''group-1'', \<lparr>Variant_Key = ''slot-1'', Type = ''mutual-exclusion-group'',
                                     IsDefaultVariant = False\<rparr>)],
         a_timestamp = 259200005\<rparr>) ''group-1.variant'' = Some ''slot-1''
   \<and> (\<exists>s u. UserProperties (toEvent (\<lambda>a. ''canonical'') (\<lambda>s. 42)
        \<lparr>a_user = alice,
         a_results = [(''flag-a'', \<lparr>Variant_Key = ''on'', Type = ''release'', IsDefaultVariant = False\<rparr>),
                      (''group-1'', \<lparr>Variant_Key = ''slot-1'', Type = ''mutual-exclusion-group'',
                                     IsDefaultVariant = False\<rparr>)],
         a_timestamp = 259200005\<rparr>) ''$set'' = Some s
        \<and> UserProperties (toEvent (\<lambda>a. ''canonical'') (\<lambda>s. 42)
        \<lparr>a_user = alice,
         a_results = [(''flag-a'', \<lparr>Variant_Key = ''on'', Type = ''release'', IsDefaultVariant = False\<rparr>),
                      (''group-1'', \<lparr>Variant_Key = ''slot-1'', Type = ''mutual-exclusion-group'',
                                     IsDefaultVariant = False\<rparr>)],
         a_timestamp = 259200005\<rparr>) ''$unset'' = Some u
        \<and> s ''[Experiment] group-1'' = None \<and> u ''[Experiment] group-1'' = None)"
proof -
  let ?rs = "[(''flag-a'', \<lparr>Variant_Key = ''on'', Type = ''release'', IsDefaultVariant = False\<rparr>),
              (''group-1'', \<lparr>Variant_Key = ''slot-1'', Type = ''mutual-exclusion-group'',
                             IsDefaultVariant = False\<rparr>)]"
  let ?a = "\<lparr>a_user = alice, a_results = ?rs, a_timestamp = 259200005\<rparr>"
  let ?C = "\<lambda>a::Assignment. ''canonical''"
  let ?H = "\<lambda>s::string. 42::int"
  have d: "distinct (map fst (a_results ?a))" by simp
  have m: "(''group-1'', \<lparr>Variant_Key = ''slot-1'', Type = ''mutual-exclusion-group'',
                          IsDefaultVariant = False\<rparr>) \<in> set (a_results ?a)" by simp
  from toEvent_groups_excluded [OF d, of ?C ?H]
  obtain s u where su:
    "\<forall>(k, r) \<in> set (a_results ?a).
        EventProperties (toEvent ?C ?H ?a) (k @ ''.variant'') = Some (Variant_Key r)"
    "UserProperties (toEvent ?C ?H ?a) ''$set'' = Some s"
    "UserProperties (toEvent ?C ?H ?a) ''$unset'' = Some u"
    "\<forall>(k, r) \<in> set (a_results ?a). Type r = ''mutual-exclusion-group'' \<longrightarrow>
        s (''[Experiment] '' @ k) = None \<and> u (''[Experiment] '' @ k) = None"
    by blast
  from su(1) m have e: "EventProperties (toEvent ?C ?H ?a) ''group-1.variant'' = Some ''slot-1''"
    by fastforce
  from su(4) m have "s ''[Experiment] group-1'' = None \<and> u ''[Experiment] group-1'' = None"
    by fastforce
  with su(2,3) have "\<exists>s u. UserProperties (toEvent ?C ?H ?a) ''$set'' = Some s
        \<and> UserProperties (toEvent ?C ?H ?a) ''$unset'' = Some u
        \<and> s ''[Experiment] group-1'' = None \<and> u ''[Experiment] group-1'' = None"
    by blast
  with e show ?thesis by simp
qed

lemma day_bucket:
  assumes "0 \<le> d" "d * DayMillis \<le> t" "t < (d + 1) * DayMillis"
  shows "t sdiv DayMillis = d"
proof -
  have pos: "0 < DayMillis" by (simp add: DayMillis_def)
  from assms(1,2) pos have t0: "0 \<le> t" by (meson mult_nonneg_nonneg less_imp_le order_trans)
  have "t div DayMillis = d"
  proof (rule int_div_pos_eq [of t DayMillis d "t - DayMillis * d"])
    show "t = DayMillis * d + (t - DayMillis * d)" by simp
    show "0 \<le> t - DayMillis * d" using assms(2) by (simp add: mult.commute)
    show "t - DayMillis * d < DayMillis" using assms(3) by (simp add: algebra_simps)
  qed
  with t0 pos show ?thesis by (auto simp: signed_divide_int_def sgn_if)
qed

text \<open>
  C8. The insert-id is the user id, the device id, the hash of the canonicalized
  assignment and the day bucket, the two numbers in decimal, separated by single spaces;
  so two assignments that agree on these four have the same insert-id. The day bucket is
  the timestamp divided by \<open>DayMillis\<close> = 86400000 with the quotient truncated: every
  timestamp of day \<open>d\<close> (counted from 0) has bucket \<open>d\<close>.
\<close>

theorem toEvent_InsertID:
  "InsertID (toEvent C H a) =
     UserId (a_user a) @ '' '' @ DeviceId (a_user a) @ '' '' @ Sprint_d (H (C a)) @ '' ''
       @ Sprint_d (sint (a_timestamp a) sdiv DayMillis)
   \<and> (UserId (a_user a) = UserId (a_user b) \<and> DeviceId (a_user a) = DeviceId (a_user b)
        \<and> H (C a) = H (C b)
        \<and> sint (a_timestamp a) sdiv DayMillis = sint (a_timestamp b) sdiv DayMillis
      \<longrightarrow> InsertID (toEvent C H a) = InsertID (toEvent C H b))
   \<and> (\<forall>d. 0 \<le> d \<and> d * DayMillis \<le> sint (a_timestamp a)
          \<and> sint (a_timestamp a) < (d + 1) * DayMillis
      \<longrightarrow> sint (a_timestamp a) sdiv DayMillis = d)"
proof (intro conjI impI allI)
  show "InsertID (toEvent C H a) =
     UserId (a_user a) @ '' '' @ DeviceId (a_user a) @ '' '' @ Sprint_d (H (C a)) @ '' ''
       @ Sprint_d (sint (a_timestamp a) sdiv DayMillis)"
    by (simp add: toEvent_def Let_def)
next
  assume "UserId (a_user a) = UserId (a_user b) \<and> DeviceId (a_user a) = DeviceId (a_user b)
        \<and> H (C a) = H (C b)
        \<and> sint (a_timestamp a) sdiv DayMillis = sint (a_timestamp b) sdiv DayMillis"
  then show "InsertID (toEvent C H a) = InsertID (toEvent C H b)"
    by (simp add: toEvent_def Let_def)
next
  fix d
  assume "0 \<le> d \<and> d * DayMillis \<le> sint (a_timestamp a)
          \<and> sint (a_timestamp a) < (d + 1) * DayMillis"
  then show "sint (a_timestamp a) sdiv DayMillis = d"
    by (simp add: day_bucket)
qed

theorem toEvent_InsertID_witness:
  "InsertID (toEvent (\<lambda>a. ''canonical'') (\<lambda>s. 42)
       \<lparr>a_user = alice, a_results = [], a_timestamp = 259200005\<rparr>) = ''alice phone 42 3''
   \<and> InsertID (toEvent (\<lambda>a. ''canonical'') (\<lambda>s. 42)
       \<lparr>a_user = alice, a_results = [], a_timestamp = 259200005\<rparr>)
     = InsertID (toEvent (\<lambda>a. ''canonical'') (\<lambda>s. 42)
       \<lparr>a_user = alice, a_results = [], a_timestamp = 345599999\<rparr>)"
proof -
  let ?a = "\<lparr>a_user = alice, a_results = [], a_timestamp = 259200005\<rparr>"
  let ?b = "\<lparr>a_user = alice, a_results = [], a_timestamp = 345599999\<rparr>"
  let ?C = "\<lambda>a::Assignment. ''canonical''"
  let ?H = "\<lambda>s::string. 42::int"
  have bucket: "sint (a_timestamp ?a) sdiv DayMillis = 3" "sint (a_timestamp ?b) sdiv DayMillis = 3"
    by (simp_all add: DayMillis_def signed_divide_int_def)
  note T = toEvent_InsertID [of ?C ?H ?a ?b]
  from T have "InsertID (toEvent ?C ?H ?a) =
     UserId (a_user ?a) @ '' '' @ DeviceId (a_user ?a) @ '' '' @ Sprint_d (?H (?C ?a)) @ '' ''
       @ Sprint_d (sint (a_timestamp ?a) sdiv DayMillis)"
    by (rule conjunct1)
  with bucket(1) have id: "InsertID (toEvent ?C ?H ?a) = ''alice phone 42 3''"
    by (simp add: alice_def Sprint_d_def digits.simps)
  from T have "UserId (a_user ?a) = UserId (a_user ?b) \<and> DeviceId (a_user ?a) = DeviceId (a_user ?b)
        \<and> ?H (?C ?a) = ?H (?C ?b)
        \<and> sint (a_timestamp ?a) sdiv DayMillis = sint (a_timestamp ?b) sdiv DayMillis
      \<longrightarrow> InsertID (toEvent ?C ?H ?a) = InsertID (toEvent ?C ?H ?b)"
    by (rule conjunct1 [OF conjunct2])
  moreover have "sint (a_timestamp ?a) sdiv DayMillis = sint (a_timestamp ?b) sdiv DayMillis"
    by (simp only: bucket)
  ultimately have "InsertID (toEvent ?C ?H ?a) = InsertID (toEvent ?C ?H ?b)" by simp
  with id show ?thesis by (rule conjI)
qed

end
